theory Spec2Isabelle
  imports Main "HOL-Library.Sublist"
begin

section \<open>Python values\<close>

text \<open>
  A Python \<open>str\<close> is a sequence of Unicode code points, and \<open>len\<close> counts code
  points. The style names of the program contain emoji, and the hashtag rule compares
  \<open>len(word)\<close> with 3, so a string is modelled as the list of its code points.
  \<open>u\<close> reads an ASCII literal as such a list.
\<close>

type_synonym ustr = "nat list"

definition u :: "string \<Rightarrow> ustr" where
  "u s = map of_char s"

datatype py_error = AttributeError | KeyError | IndexError | IntegrityError

text \<open>
  \<open>str.isspace\<close> of one code point: the characters \<open>str.split()\<close> treats as
  separators (U+0009..U+000D, U+001C..U+0020, U+0085, U+00A0, U+1680, U+2000..U+200A,
  U+2028, U+2029, U+202F, U+205F, U+3000).
\<close>

definition py_isspace :: "nat \<Rightarrow> bool" where
  "py_isspace c \<longleftrightarrow>
     (9 \<le> c \<and> c \<le> 13) \<or> (28 \<le> c \<and> c \<le> 32) \<or> c = 133 \<or> c = 160 \<or> c = 5760 \<or>
     (8192 \<le> c \<and> c \<le> 8202) \<or> c = 8232 \<or> c = 8233 \<or> c = 8239 \<or> c = 8287 \<or>
     c = 12288"

text \<open>
  \<open>s.split()\<close>: the maximal runs of non-space characters, in order. The scan
  keeps the word read so far in \<open>w\<close> and closes it at a separator or at the end.
\<close>

definition flush :: "ustr \<Rightarrow> ustr list" where
  "flush w = (if w = [] then [] else [w])"

fun words_acc :: "ustr \<Rightarrow> ustr \<Rightarrow> ustr list" where
  "words_acc w [] = flush w"
| "words_acc w (c # cs) =
     (if py_isspace c then flush w @ words_acc [] cs else words_acc (w @ [c]) cs)"

definition py_split :: "ustr \<Rightarrow> ustr list" where
  "py_split s = words_acc [] s"

text \<open>\<open>s.split(sep, 1)\<close> for a one-character separator: at most one cut, at the first
  occurrence.\<close>

definition py_split1 :: "nat \<Rightarrow> ustr \<Rightarrow> ustr list" where
  "py_split1 sep s =
     (if sep \<in> set s
      then [takeWhile (\<lambda>c. c \<noteq> sep) s, tl (dropWhile (\<lambda>c. c \<noteq> sep) s)]
      else [s])"

text \<open>\<open>s.split(sep)\<close> for a one-character separator: every cut, empty pieces kept.\<close>

fun py_split_sep :: "nat \<Rightarrow> ustr \<Rightarrow> ustr list" where
  "py_split_sep sep [] = [[]]"
| "py_split_sep sep (c # cs) =
     (if c = sep then [] # py_split_sep sep cs
      else (case py_split_sep sep cs of
              [] \<Rightarrow> [[c]]
            | w # ws \<Rightarrow> (c # w) # ws))"

text \<open>\<open>xs[i]\<close> for a non-negative index: out of range raises \<open>IndexError\<close>.\<close>

definition py_index :: "'a list \<Rightarrow> nat \<Rightarrow> py_error + 'a" where
  "py_index xs i = (if i < length xs then Inr (xs ! i) else Inl IndexError)"

text \<open>\<open>sep.join(xs)\<close>.\<close>

fun py_join :: "ustr \<Rightarrow> ustr list \<Rightarrow> ustr" where
  "py_join sep [] = []"
| "py_join sep [x] = x"
| "py_join sep (x # y # ys) = x @ sep @ py_join sep (y # ys)"

text \<open>\<open>d[k]\<close> on a dictionary given as its item list.\<close>

definition py_getitem :: "('k \<times> 'v) list \<Rightarrow> 'k \<Rightarrow> py_error + 'v" where
  "py_getitem d k = (case map_of d k of None \<Rightarrow> Inl KeyError | Some v \<Rightarrow> Inr v)"

text \<open>\<open>d.get(k, default)\<close>.\<close>

definition py_get :: "('k \<times> 'v) list \<Rightarrow> 'k \<Rightarrow> 'v \<Rightarrow> 'v" where
  "py_get d k dflt = (case map_of d k of None \<Rightarrow> dflt | Some v \<Rightarrow> v)"

text \<open>
  \<open>str.capitalize\<close> on ASCII letters: first character upper-cased, the rest
  lower-cased. The Unicode case tables behind the built-in are not part of the
  repository, so \<open>generate_caption\<close> below takes the built-in as a parameter, and
  this definition is the instance used on ASCII descriptions.
\<close>

definition ascii_upper :: "nat \<Rightarrow> nat" where
  "ascii_upper c = (if 97 \<le> c \<and> c \<le> 122 then c - 32 else c)"

definition ascii_lower :: "nat \<Rightarrow> nat" where
  "ascii_lower c = (if 65 \<le> c \<and> c \<le> 90 then c + 32 else c)"

definition ascii_capitalize :: "ustr \<Rightarrow> ustr" where
  "ascii_capitalize s =
     (case s of [] \<Rightarrow> [] | c # cs \<Rightarrow> ascii_upper c # map ascii_lower cs)"

section \<open>Caption engine (\<open>CaptionGenerator.generate_caption\<close>)\<close>

text \<open>The six style names offered by the user interface, each an emoji, a space and
  a word.\<close>

definition style_smart :: ustr where
  "style_smart = 129321 # u '' Smart''"

definition style_funny :: ustr where
  "style_funny = 128514 # u '' Funny''"

definition style_inspirational :: ustr where
  "style_inspirational = 128172 # u '' Inspirational''"

definition style_minimalist :: ustr where
  "style_minimalist = 10134 # u '' Minimalist''"

definition style_professional :: ustr where
  "style_professional = 128188 # u '' Professional''"

definition style_dramatic :: ustr where
  "style_dramatic = 127917 # u '' Dramatic''"

definition style_names :: "ustr list" where
  "style_names = [style_smart, style_funny, style_inspirational, style_minimalist,
                  style_professional, style_dramatic]"

text \<open>
  The dictionary \<open>styles\<close> is built in full before the selector is looked at, so
  the \<open>[1]\<close> of the second entry raises \<open>IndexError\<close> for every selector when
  the description holds no space.
\<close>

definition styles :: "(ustr \<Rightarrow> ustr) \<Rightarrow> ustr \<Rightarrow> py_error + (ustr \<times> ustr) list" where
  "styles capitalize result =
     (case py_index (py_split1 32 result) 1 of
        Inl e \<Rightarrow> Inl e
      | Inr rest \<Rightarrow>
          (case py_index (py_split_sep 44 result) 0 of
             Inl e \<Rightarrow> Inl e
           | Inr first_clause \<Rightarrow>
               Inr [(style_smart, capitalize result),
                    (style_funny, u ''LOL when I '' @ rest @ [32, 128514]),
                    (style_inspirational,
                       u ''In this moment: '' @ result @ u ''. Cherish the journey. '' @ [10024]),
                    (style_minimalist, first_clause),
                    (style_professional, u ''High-quality image showing: '' @ result),
                    (style_dramatic,
                       u ''OMG! You won'' @ [39] @ u ''t BELIEVE what happens when '' @ result
                         @ u ''!!!'')]))"

definition keywords_of :: "ustr \<Rightarrow> ustr list" where
  "keywords_of result = take 5 (filter (\<lambda>word. 3 < length word) (py_split result))"

definition hashtags_of :: "ustr \<Rightarrow> ustr" where
  "hashtags_of result =
     py_join (u '' '') (map (\<lambda>word. 35 # word) (keywords_of result)) @ u '' #InstaAI #SocialMedia''"

text \<open>
  \<open>generate_caption\<close>, from the model's description \<open>result\<close> on (the one call
  into the captioning model is the source of \<open>result\<close>).
\<close>

definition generate_caption ::
  "(ustr \<Rightarrow> ustr) \<Rightarrow> ustr \<Rightarrow> ustr \<Rightarrow> py_error + (ustr \<times> ustr)" where
  "generate_caption capitalize result style =
     (case styles capitalize result of
        Inl e \<Rightarrow> Inl e
      | Inr d \<Rightarrow>
          (case py_getitem d style_smart of
             Inl e \<Rightarrow> Inl e
           | Inr dflt \<Rightarrow> Inr (py_get d style dflt, hashtags_of result)))"

section \<open>Persistent store\<close>

text \<open>
  The four tables of \<open>init_db\<close>. Every \<open>INTEGER\<close> column is an \<open>int\<close>, a
  timestamp is a number of seconds, and a table is the list of its rows in insertion
  order. \<open>AUTOINCREMENT\<close> keeps, per table, the largest id handed out so far.
\<close>

record user_row =
  u_id :: int
  u_device_id :: string
  u_created_at :: nat
  u_last_active :: "nat option"
  u_caption_count :: int
  u_ad_watched :: int
  u_coins :: int

record ad_config_row =
  c_id :: int
  platform_name :: ustr
  api_key :: ustr
  priority :: int
  is_active :: int
  ads_per_use :: int
  min_coins :: int

record ad_event_row =
  e_id :: int
  e_user_id :: int
  e_platform_id :: int
  e_timestamp :: nat
  coins_earned :: int

record caption_row =
  cap_id :: int
  cap_user_id :: int
  image_hash :: string
  caption :: ustr
  hashtags :: ustr
  cap_created_at :: nat

record db =
  users :: "user_row list"
  users_seq :: int
  ad_configs :: "ad_config_row list"
  ad_configs_seq :: int
  ad_events :: "ad_event_row list"
  ad_events_seq :: int
  captions :: "caption_row list"
  captions_seq :: int

text \<open>\<open>init_db\<close> on a new database file: four empty tables.\<close>

definition init_db :: db where
  "init_db = \<lparr>users = [], users_seq = 0, ad_configs = [], ad_configs_seq = 0,
              ad_events = [], ad_events_seq = 0, captions = [], captions_seq = 0\<rparr>"

text \<open>
  \<open>INSERT INTO users (device_id) VALUES (?)\<close>: the other columns take their
  defaults; \<open>device_id\<close> is \<open>UNIQUE\<close>, so a second row with the same token is
  refused with \<open>IntegrityError\<close> and nothing is written.
\<close>

definition register_user :: "string \<Rightarrow> nat \<Rightarrow> db \<Rightarrow> py_error + db" where
  "register_user dev now d =
     (if dev \<in> set (map u_device_id (users d)) then Inl IntegrityError
      else Inr (d\<lparr>users := users d @
                    [\<lparr>u_id = users_seq d + 1, u_device_id = dev, u_created_at = now,
                      u_last_active = None, u_caption_count = 0, u_ad_watched = 0,
                      u_coins = 0\<rparr>],
                  users_seq := users_seq d + 1\<rparr>))"

section \<open>Ad engine (\<open>AdMonetizationEngine\<close>)\<close>

text \<open>
  \<open>SELECT * FROM ad_configs WHERE is_active=1 ORDER BY priority\<close>. Rows of equal
  priority are kept in insertion order here; SQL leaves their order open, and no
  theorem below depends on it.
\<close>

definition active_configs :: "db \<Rightarrow> ad_config_row list" where
  "active_configs d = filter (\<lambda>c. is_active c = 1) (ad_configs d)"

definition get_active_ad_platforms :: "db \<Rightarrow> ad_config_row list" where
  "get_active_ad_platforms d = sort_key priority (active_configs d)"

record current_ad_rec =
  ad_platform :: ustr
  ad_coins :: int
  ad_start_time :: nat

text \<open>The browser session (\<open>st.session_state\<close>): an attribute that was never
  assigned is \<open>None\<close>, and reading it raises.\<close>

record session =
  device_id :: "string option"
  coins :: "int option"
  caption_count :: "int option"
  ads_watched :: "int option"
  current_ad :: "current_ad_rec option"
  user_id :: "int option"

definition fresh_session :: session where
  "fresh_session = \<lparr>device_id = None, coins = None, caption_count = None,
                     ads_watched = None, current_ad = None, user_id = None\<rparr>"

datatype ad_message = No_active_ad_platforms | Earned int

definition credit_user :: "int \<Rightarrow> int \<Rightarrow> user_row \<Rightarrow> user_row" where
  "credit_user reward uid r =
     (if u_id r = uid
      then r\<lparr>u_coins := u_coins r + reward, u_ad_watched := u_ad_watched r + 1\<rparr>
      else r)"

text \<open>
  \<open>show_ads_to_user\<close>: the countdown and the widgets write nothing to the session
  or the store, so the model goes from the choice of the platform to the two
  statements of the reward.
\<close>

definition show_ads_to_user ::
  "int \<Rightarrow> nat \<Rightarrow> session \<times> db \<Rightarrow> (bool \<times> ad_message) \<times> session \<times> db" where
  "show_ads_to_user uid now sd =
     (case sd of (s, d) \<Rightarrow>
        (case get_active_ad_platforms d of
           [] \<Rightarrow> ((False, No_active_ad_platforms), s, d)
         | p # _ \<Rightarrow>
             ((True, Earned (min_coins p)),
              s\<lparr>current_ad := Some \<lparr>ad_platform = platform_name p, ad_coins = min_coins p,
                                    ad_start_time = now\<rparr>\<rparr>,
              d\<lparr>users := map (credit_user (min_coins p) uid) (users d),
                ad_events := ad_events d @
                  [\<lparr>e_id = ad_events_seq d + 1, e_user_id = uid, e_platform_id = c_id p,
                    e_timestamp = now, coins_earned = min_coins p\<rparr>],
                ad_events_seq := ad_events_seq d + 1\<rparr>)))"

section \<open>Admin flow (\<open>enterprise_admin_dashboard\<close>)\<close>

text \<open>The form "Configure New Ad Platform": one \<open>INSERT INTO ad_configs\<close>, the
  checkbox stored as \<open>int(is_active)\<close>.\<close>

definition insert_ad_config ::
  "ustr \<Rightarrow> ustr \<Rightarrow> int \<Rightarrow> bool \<Rightarrow> int \<Rightarrow> int \<Rightarrow> db \<Rightarrow> db" where
  "insert_ad_config platform key prio active per_use reward d =
     d\<lparr>ad_configs := ad_configs d @
          [\<lparr>c_id = ad_configs_seq d + 1, platform_name = platform, api_key = key,
            priority = prio, is_active = (if active then 1 else 0),
            ads_per_use = per_use, min_coins = reward\<rparr>],
       ad_configs_seq := ad_configs_seq d + 1\<rparr>"

text \<open>"Save Changes": one \<open>UPDATE ad_configs ... WHERE id=?\<close> per row of the edited
  grid.\<close>

record config_edit =
  ed_id :: int
  ed_priority :: int
  ed_is_active :: int
  ed_ads_per_use :: int
  ed_min_coins :: int

definition update_ad_config :: "config_edit \<Rightarrow> ad_config_row \<Rightarrow> ad_config_row" where
  "update_ad_config e c =
     (if c_id c = ed_id e
      then c\<lparr>priority := ed_priority e, is_active := ed_is_active e,
             ads_per_use := ed_ads_per_use e, min_coins := ed_min_coins e\<rparr>
      else c)"

definition save_config_edits :: "config_edit list \<Rightarrow> db \<Rightarrow> db" where
  "save_config_edits es d =
     d\<lparr>ad_configs := foldl (\<lambda>cs e. map (update_ad_config e) cs) (ad_configs d) es\<rparr>"

text \<open>"Add coins": \<open>UPDATE users SET coins = coins + ? WHERE id=?\<close>.\<close>

definition grant_row :: "int \<Rightarrow> int \<Rightarrow> user_row \<Rightarrow> user_row" where
  "grant_row amount uid r = (if u_id r = uid then r\<lparr>u_coins := u_coins r + amount\<rparr> else r)"

definition admin_add_coins :: "int \<Rightarrow> int \<Rightarrow> db \<Rightarrow> db" where
  "admin_add_coins amount uid d = d\<lparr>users := map (grant_row amount uid) (users d)\<rparr>"

type_synonym files = "string \<rightharpoonup> ustr"

text \<open>A file opened for writing: its path and the position of the next write.\<close>

record writer =
  w_path :: string
  w_pos :: nat

text \<open>\<open>open(path, 'w')\<close> creates the file or empties it; \<open>f.write(s)\<close> puts
  \<open>s\<close> at the position, over what the file holds there, and moves the position.\<close>

definition open_w :: "string \<Rightarrow> files \<Rightarrow> writer \<times> files" where
  "open_w path fs = (\<lparr>w_path = path, w_pos = 0\<rparr>, fs(path \<mapsto> []))"

definition file_text :: "files \<Rightarrow> string \<Rightarrow> ustr" where
  "file_text fs path = (case fs path of None \<Rightarrow> [] | Some c \<Rightarrow> c)"

definition write_at :: "nat \<Rightarrow> ustr \<Rightarrow> ustr \<Rightarrow> ustr" where
  "write_at pos s c = take pos c @ s @ drop (pos + length s) c"

definition fwrite :: "ustr \<Rightarrow> writer \<times> files \<Rightarrow> writer \<times> files" where
  "fwrite s hf =
     (case hf of (w, fs) \<Rightarrow>
        (w\<lparr>w_pos := w_pos w + length s\<rparr>,
         fs(w_path w \<mapsto> write_at (w_pos w) s (file_text fs (w_path w)))))"

text \<open>\<open>json.dump\<close> with the default encoder: an \<open>int\<close> as its decimal digits,
  a \<open>float\<close> as \<open>float.__repr__\<close> gives it (the floats are a parameter \<open>'f\<close>, their
  \<open>repr\<close> a parameter \<open>float_repr\<close>), a \<open>str\<close> between quotes with every character
  outside U+0020..U+007E, the quote and the backslash escaped (\<open>ensure_ascii\<close>), the
  members of a dictionary in insertion order, separated by \<open>', '\<close> and \<open>': '\<close>. The
  encoder hands the text to \<open>f.write\<close> piece by piece.\<close>

function digits_of :: "nat \<Rightarrow> ustr" where
  "digits_of n = (if n < 10 then [48 + n] else digits_of (n div 10) @ [48 + n mod 10])"
  by pat_completeness auto
termination
  by (relation "measure id") auto

declare digits_of.simps [simp del]

definition py_repr_int :: "int \<Rightarrow> ustr" where
  "py_repr_int i = (if i < 0 then 45 # digits_of (nat (- i)) else digits_of (nat i))"

definition hex_digit :: "nat \<Rightarrow> nat" where
  "hex_digit v = (if v < 10 then 48 + v else 87 + v)"

definition hex4 :: "nat \<Rightarrow> ustr" where
  "hex4 n = [hex_digit (n div 4096 mod 16), hex_digit (n div 256 mod 16),
             hex_digit (n div 16 mod 16), hex_digit (n mod 16)]"

definition escape_char :: "nat \<Rightarrow> ustr" where
  "escape_char c =
     (if c = 92 then [92, 92]
      else if c = 34 then [92, 34]
      else if c = 8 then [92, 98]
      else if c = 12 then [92, 102]
      else if c = 10 then [92, 110]
      else if c = 13 then [92, 114]
      else if c = 9 then [92, 116]
      else if 32 \<le> c \<and> c \<le> 126 then [c]
      else if c < 65536 then 92 # 117 # hex4 c
      else 92 # 117 # hex4 (55296 + (c - 65536) div 1024 mod 1024) @
           92 # 117 # hex4 (56320 + (c - 65536) mod 1024))"

definition py_encode_basestring_ascii :: "ustr \<Rightarrow> ustr" where
  "py_encode_basestring_ascii s = 34 # concat (map escape_char s) @ [34]"

text \<open>The values the settings dictionary holds.\<close>

datatype 'f jvalue = JInt int | JFloat 'f | JStr ustr

definition encode_value :: "('f \<Rightarrow> ustr) \<Rightarrow> 'f jvalue \<Rightarrow> ustr" where
  "encode_value float_repr v =
     (case v of JInt i \<Rightarrow> py_repr_int i
      | JFloat x \<Rightarrow> float_repr x
      | JStr s \<Rightarrow> py_encode_basestring_ascii s)"

fun member_chunks :: "('f \<Rightarrow> ustr) \<Rightarrow> bool \<Rightarrow> (ustr \<times> 'f jvalue) list \<Rightarrow> ustr list" where
  "member_chunks float_repr first [] = []"
| "member_chunks float_repr first ((k, v) # kvs) =
     (if first then [] else [u '', '']) @
     [py_encode_basestring_ascii k, u '': '', encode_value float_repr v] @
     member_chunks float_repr False kvs"

definition json_chunks :: "('f \<Rightarrow> ustr) \<Rightarrow> (ustr \<times> 'f jvalue) list \<Rightarrow> ustr list" where
  "json_chunks float_repr d =
     (case d of [] \<Rightarrow> [u ''{}'']
      | _ # _ \<Rightarrow> u ''{'' # member_chunks float_repr True d @ [u ''}''])"

definition json_dump ::
  "('f \<Rightarrow> ustr) \<Rightarrow> (ustr \<times> 'f jvalue) list \<Rightarrow> writer \<times> files \<Rightarrow> writer \<times> files" where
  "json_dump float_repr d hf = fold fwrite (json_chunks float_repr d) hf"

text \<open>"Save Business Settings": \<open>with open('business_config.json', 'w') as f\<close> and
  \<open>json.dump\<close> of the dictionary of the three form values.\<close>

definition save_business_settings ::
  "('f \<Rightarrow> ustr) \<Rightarrow> int \<Rightarrow> 'f \<Rightarrow> ustr \<Rightarrow> files \<Rightarrow> files" where
  "save_business_settings float_repr free_tier_ads premium_price premium_benefits fs =
     snd (json_dump float_repr
            [(u ''free_tier_ads'', JInt free_tier_ads),
             (u ''premium_price'', JFloat premium_price),
             (u ''premium_benefits'', JStr premium_benefits)]
            (open_w ''business_config.json'' fs))"

text \<open>The reload of the file is \<open>json.load\<close>, which the program itself never calls:
  it is modelled after the standard decoder, for the documents that are one object
  whose values are numbers and strings. Nested objects, arrays, \<open>true\<close>,
  \<open>false\<close>, \<open>null\<close>, \<open>NaN\<close> and \<open>Infinity\<close> are outside the model and give
  \<open>Unmodelled_value\<close>; a malformed text gives \<open>JSONDecodeError\<close>.\<close>

datatype load_error = FileNotFoundError | JSONDecodeError | Unmodelled_value

definition is_ws :: "nat \<Rightarrow> bool" where
  "is_ws c \<longleftrightarrow> c = 32 \<or> c = 9 \<or> c = 10 \<or> c = 13"

definition skip_ws :: "ustr \<Rightarrow> ustr" where
  "skip_ws s = dropWhile is_ws s"

definition is_digit :: "nat \<Rightarrow> bool" where
  "is_digit c \<longleftrightarrow> 48 \<le> c \<and> c \<le> 57"

text \<open>\<open>py_scanstring\<close>, from behind the opening quote: the characters up to the
  closing quote and the rest of the text. A control character is refused, an escape is
  one of the eight short ones or \<open>\\uXXXX\<close>, and a high surrogate followed by an escaped
  low surrogate is one character.\<close>

definition hex_value :: "nat \<Rightarrow> nat option" where
  "hex_value c =
     (if 48 \<le> c \<and> c \<le> 57 then Some (c - 48)
      else if 97 \<le> c \<and> c \<le> 102 then Some (c - 87)
      else if 65 \<le> c \<and> c \<le> 70 then Some (c - 55)
      else None)"

definition decode_uXXXX :: "ustr \<Rightarrow> nat option" where
  "decode_uXXXX s =
     (case s of
        a # b # c # d # _ \<Rightarrow>
          (case (hex_value a, hex_value b, hex_value c, hex_value d) of
             (Some x3, Some x2, Some x1, Some x0) \<Rightarrow> Some (((x3 * 16 + x2) * 16 + x1) * 16 + x0)
           | _ \<Rightarrow> None)
      | _ \<Rightarrow> None)"

definition unescape :: "nat \<Rightarrow> nat option" where
  "unescape e =
     (if e = 34 then Some 34
      else if e = 92 then Some 92
      else if e = 47 then Some 47
      else if e = 98 then Some 8
      else if e = 102 then Some 12
      else if e = 110 then Some 10
      else if e = 114 then Some 13
      else if e = 116 then Some 9
      else None)"

definition cons_char :: "nat \<Rightarrow> load_error + ustr \<times> ustr \<Rightarrow> load_error + ustr \<times> ustr" where
  "cons_char c r = (case r of Inl e \<Rightarrow> Inl e | Inr (cs, rest) \<Rightarrow> Inr (c # cs, rest))"

fun py_scanstring :: "ustr \<Rightarrow> load_error + ustr \<times> ustr" where
  "py_scanstring [] = Inl JSONDecodeError"
| "py_scanstring (c # s) =
     (if c = 34 then Inr ([], s)
      else if c = 92 then
        (case s of
           [] \<Rightarrow> Inl JSONDecodeError
         | e # s1 \<Rightarrow>
             (if e = 117 then
                (case decode_uXXXX s1 of
                   None \<Rightarrow> Inl JSONDecodeError
                 | Some uni \<Rightarrow>
                     (if 55296 \<le> uni \<and> uni \<le> 56319 \<and> take 2 (drop 4 s1) = [92, 117]
                      then (case decode_uXXXX (drop 6 s1) of
                              None \<Rightarrow> Inl JSONDecodeError
                            | Some uni2 \<Rightarrow>
                                (if 56320 \<le> uni2 \<and> uni2 \<le> 57343
                                 then cons_char
                                        (65536 + ((uni - 55296) * 1024 + (uni2 - 56320)))
                                        (py_scanstring (drop 10 s1))
                                 else cons_char uni (py_scanstring (drop 4 s1))))
                      else cons_char uni (py_scanstring (drop 4 s1))))
              else (case unescape e of
                      None \<Rightarrow> Inl JSONDecodeError
                    | Some ch \<Rightarrow> cons_char ch (py_scanstring s1))))
      else if c < 32 then Inl JSONDecodeError
      else cons_char c (py_scanstring s))"

text \<open>The number pattern of the scanner: an integer part, an optional fraction, an
  optional exponent. With a fraction or an exponent the text goes to \<open>float\<close> (the
  parameter \<open>float_of\<close>), else to \<open>int\<close>.\<close>

definition scan_integer :: "ustr \<Rightarrow> (ustr \<times> ustr) option" where
  "scan_integer s =
     (let sign = (if take 1 s = [45] then [45] else []);
          s0 = drop (length sign) s;
          ds = takeWhile is_digit s0
      in if ds = [] then None
         else if hd ds = 48 then Some (sign @ [48], tl s0)
         else Some (sign @ ds, dropWhile is_digit s0))"

definition scan_frac :: "ustr \<Rightarrow> ustr \<times> ustr" where
  "scan_frac s =
     (if take 1 s = [46] \<and> takeWhile is_digit (tl s) \<noteq> []
      then (46 # takeWhile is_digit (tl s), dropWhile is_digit (tl s))
      else ([], s))"

definition scan_exp :: "ustr \<Rightarrow> ustr \<times> ustr" where
  "scan_exp s =
     (if take 1 s = [101] \<or> take 1 s = [69]
      then (let t = tl s;
                sg = (if take 1 t = [43] \<or> take 1 t = [45] then take 1 t else []);
                t1 = drop (length sg) t;
                ds = takeWhile is_digit t1
            in if ds = [] then ([], s) else (take 1 s @ sg @ ds, dropWhile is_digit t1))
      else ([], s))"

definition nat_of_digits :: "ustr \<Rightarrow> nat" where
  "nat_of_digits ds = foldl (\<lambda>acc c. acc * 10 + (c - 48)) 0 ds"

definition py_int :: "ustr \<Rightarrow> int" where
  "py_int tok =
     (if take 1 tok = [45] then - int (nat_of_digits (tl tok)) else int (nat_of_digits tok))"

definition match_number :: "(ustr \<Rightarrow> 'f) \<Rightarrow> ustr \<Rightarrow> ('f jvalue \<times> ustr) option" where
  "match_number float_of s =
     (case scan_integer s of
        None \<Rightarrow> None
      | Some (i, s1) \<Rightarrow>
          (case scan_frac s1 of
             (f, s2) \<Rightarrow>
               (case scan_exp s2 of
                  (e, s3) \<Rightarrow>
                    (if f = [] \<and> e = [] then Some (JInt (py_int i), s3)
                     else Some (JFloat (float_of (i @ f @ e)), s3)))))"

text \<open>The texts the number pattern matches entirely, with a fraction or an exponent:
  what \<open>repr\<close> gives for a finite float.\<close>

definition float_literal :: "ustr \<Rightarrow> bool" where
  "float_literal t =
     (case scan_integer t of
        None \<Rightarrow> False
      | Some (i, s1) \<Rightarrow>
          (case scan_frac s1 of
             (f, s2) \<Rightarrow>
               (case scan_exp s2 of
                  (e, s3) \<Rightarrow> s3 = [] \<and> (f \<noteq> [] \<or> e \<noteq> []))))"

definition scan_once :: "(ustr \<Rightarrow> 'f) \<Rightarrow> ustr \<Rightarrow> load_error + 'f jvalue \<times> ustr" where
  "scan_once float_of s =
     (case s of
        [] \<Rightarrow> Inl JSONDecodeError
      | c # t \<Rightarrow>
          (if c = 34 then
             (case py_scanstring t of
                Inl e \<Rightarrow> Inl e
              | Inr (str, rest) \<Rightarrow> Inr (JStr str, rest))
           else if c = 123 \<or> c = 91 \<or> c = 110 \<or> c = 116 \<or> c = 102 \<or> c = 78 \<or> c = 73
                   \<or> take 9 s = u ''-Infinity''
           then Inl Unmodelled_value
           else (case match_number float_of s of
                   None \<Rightarrow> Inl JSONDecodeError
                 | Some r \<Rightarrow> Inr r)))"


text \<open>\<open>JSONObject\<close>, from the opening quote of a key: the pairs up to the closing
  brace, and the rest of the text.\<close>

function parse_members ::
  "(ustr \<Rightarrow> 'f) \<Rightarrow> ustr \<Rightarrow> load_error + (ustr \<times> 'f jvalue) list \<times> ustr" where
  "parse_members float_of s =
     (case s of
        [] \<Rightarrow> Inl JSONDecodeError
      | q # s0 \<Rightarrow>
          (if q \<noteq> 34 then Inl JSONDecodeError
           else (case py_scanstring s0 of
                   Inl e \<Rightarrow> Inl e
                 | Inr (key, s1) \<Rightarrow>
                     (case skip_ws s1 of
                        [] \<Rightarrow> Inl JSONDecodeError
                      | colon # s2 \<Rightarrow>
                          (if colon \<noteq> 58 then Inl JSONDecodeError
                           else (case scan_once float_of (skip_ws s2) of
                                   Inl e \<Rightarrow> Inl e
                                 | Inr (v, s3) \<Rightarrow>
                                     (case skip_ws s3 of
                                        [] \<Rightarrow> Inl JSONDecodeError
                                      | d # s4 \<Rightarrow>
                                          (if d = 125 then Inr ([(key, v)], s4)
                                           else if d = 44 then
                                             (case parse_members float_of (skip_ws s4) of
                                                Inl e \<Rightarrow> Inl e
                                              | Inr (kvs, rest) \<Rightarrow> Inr ((key, v) # kvs, rest))
                                           else Inl JSONDecodeError))))))))"
  by pat_completeness auto
termination
proof (relation "measure (\<lambda>(f, s). length s)", goal_cases)
  case 1
  show ?case by simp
next
  case (2 float_of s q s0 x key s1 colon s2 x2 v s3 d s4)
  have cons: "\<exists>cs'. r = Inr (cs', rest)" if "cons_char c r = Inr (cs, rest)" for c r cs rest
    using that by (auto simp: cons_char_def split: sum.splits)
  have str: "length rest \<le> length t" if "py_scanstring t = Inr (cs, rest)" for t cs rest
    using that
  proof (induction t arbitrary: cs rest rule: py_scanstring.induct)
    case 1
    then show ?case by simp
  next
    case (2 c s)
    show ?case
      using "2.prems" "2.IH"
      by (auto simp: split: if_splits list.splits option.splits dest!: cons)
         (fastforce+)?
  qed
  have num: "length r \<le> length t" if "match_number float_of t = Some (w, r)" for t w r
  proof -
    have i: "length r \<le> length t" if "scan_integer t = Some (i, r)" for t i r
      using that by (auto simp: scan_integer_def Let_def split: if_splits
          intro: le_trans [OF length_dropWhile_le])
    have f: "length r \<le> length t" if "scan_frac t = (f, r)" for t f r
      using that by (auto simp: scan_frac_def split: if_splits
          intro: le_trans [OF length_dropWhile_le])
    have e: "length r \<le> length t" if "scan_exp t = (e, r)" for t e r
      using that by (auto simp: scan_exp_def Let_def split: if_splits
          intro: le_trans [OF length_dropWhile_le])
    show ?thesis
      using that by (auto simp: match_number_def split: option.splits prod.splits if_splits
          dest!: i f e)
  qed
  have once: "length r \<le> length t" if "scan_once float_of t = Inr (w, r)" for t w r
    using that by (auto simp: scan_once_def split: list.splits if_splits sum.splits option.splits
        dest!: str num)
  have ws: "length (skip_ws t) \<le> length t" for t
    by (simp add: skip_ws_def length_dropWhile_le)
  have "length s1 \<le> length s0"
    using 2 by (auto dest: str)
  moreover have "length s2 < length s1"
    using 2 ws [of s1] by simp
  moreover have "length s3 \<le> length (skip_ws s2)"
    using 2 by (auto dest: once)
  moreover have "length s4 < length s3"
    using 2 ws [of s3] by simp
  ultimately show ?case
    using 2 ws [of s2] ws [of s4] by simp
qed

declare parse_members.simps [simp del]

text \<open>\<open>dict(pairs)\<close>: a key keeps its first place and takes its last value.\<close>

fun dict_set :: "'k \<Rightarrow> 'v \<Rightarrow> ('k \<times> 'v) list \<Rightarrow> ('k \<times> 'v) list" where
  "dict_set k v [] = [(k, v)]"
| "dict_set k v ((k', v') # d) =
     (if k' = k then (k, v) # d else (k', v') # dict_set k v d)"

definition py_dict :: "('k \<times> 'v) list \<Rightarrow> ('k \<times> 'v) list" where
  "py_dict kvs = foldl (\<lambda>d (k, v). dict_set k v d) [] kvs"

text \<open>\<open>json.loads\<close>: one value, white space around it, nothing else.\<close>

definition json_loads :: "(ustr \<Rightarrow> 'f) \<Rightarrow> ustr \<Rightarrow> load_error + (ustr \<times> 'f jvalue) list" where
  "json_loads float_of text =
     (case skip_ws text of
        [] \<Rightarrow> Inl JSONDecodeError
      | c # s0 \<Rightarrow>
          (if c \<noteq> 123 then
             (case scan_once float_of (c # s0) of
                Inl e \<Rightarrow> Inl e
              | Inr _ \<Rightarrow> Inl Unmodelled_value)
           else (case skip_ws s0 of
                   [] \<Rightarrow> Inl JSONDecodeError
                 | c1 # s1 \<Rightarrow>
                     (case (if c1 = 125 then Inr ([], s1)
                            else parse_members float_of (c1 # s1)) of
                        Inl e \<Rightarrow> Inl e
                      | Inr (kvs, rest) \<Rightarrow>
                          (if skip_ws rest = [] then Inr (py_dict kvs)
                           else Inl JSONDecodeError)))))"

definition json_load ::
  "(ustr \<Rightarrow> 'f) \<Rightarrow> string \<Rightarrow> files \<Rightarrow> load_error + (ustr \<times> 'f jvalue) list" where
  "json_load float_of path fs =
     (case fs path of
        None \<Rightarrow> Inl FileNotFoundError
      | Some text \<Rightarrow> json_loads float_of text)"

text \<open>The code points a text of the form can hold: the browser sends UTF-8, which has
  no surrogates.\<close>

definition scalar_value :: "nat \<Rightarrow> bool" where
  "scalar_value c \<longleftrightarrow> c < 55296 \<or> (57344 \<le> c \<and> c < 1114112)"

section \<open>End-user flow (\<open>main_user_app\<close>)\<close>

text \<open>
  One run of the script is one request: what the browser sends (the uploaded file, the
  selected style, the button that was clicked), the clock, and the token that
  \<open>hashlib.md5(str(time.time()))\<close> would yield in this run. An uploaded image comes
  with its content hash and with the description the captioning model gives for it.
\<close>

datatype click = No_click | Watch_ad nat | Generate

record upload =
  up_image_hash :: string
  up_description :: ustr

record request =
  rq_token :: string
  rq_now :: nat
  rq_upload :: "upload option"
  rq_style :: ustr
  rq_click :: click

text \<open>A run ends normally or with an uncaught exception; what it wrote to the session
  before the exception stays, and so does what it committed to the store.\<close>

type_synonym 'a outcome = "(py_error + 'a) \<times> session \<times> db"

text \<open>"Initialize session": the four assignments, then the registration.\<close>

definition init_session :: "request \<Rightarrow> session \<times> db \<Rightarrow> unit outcome" where
  "init_session rq sd =
     (case sd of (s, d) \<Rightarrow>
        (if device_id s = None
         then (let s1 = s\<lparr>device_id := Some (rq_token rq), coins := Some 0,
                           caption_count := Some 0, ads_watched := Some 0\<rparr>
               in (case register_user (rq_token rq) (rq_now rq) d of
                     Inl e \<Rightarrow> (Inl e, s1, d)
                   | Inr d1 \<Rightarrow> (Inr (), s1, d1)))
         else (Inr (), s, d)))"

text \<open>"Ad requirement check": \<open>SELECT ads_per_use ... ORDER BY priority LIMIT 1\<close>,
  and 1 when there is no row.\<close>

definition ads_required :: "db \<Rightarrow> int" where
  "ads_required d = (case get_active_ad_platforms d of [] \<Rightarrow> 1 | p # _ \<Rightarrow> ads_per_use p)"

text \<open>The condition under which the ad buttons are shown.\<close>

definition needs_ads :: "int \<Rightarrow> bool" where
  "needs_ads cc \<longleftrightarrow> 0 < cc \<and> cc mod 3 = 0"

text \<open>The \<open>disabled=\<close> argument of the generate button; \<open>and\<close> reads its second
  operand only when the first holds.\<close>

definition generate_disabled :: "session \<Rightarrow> int \<Rightarrow> py_error + bool" where
  "generate_disabled s required =
     (case caption_count s of
        None \<Rightarrow> Inl AttributeError
      | Some cc \<Rightarrow>
          (if cc mod 3 = 0
           then (case ads_watched s of
                   None \<Rightarrow> Inl AttributeError
                 | Some aw \<Rightarrow> Inr (aw < required))
           else Inr False))"

text \<open>A click on "Watch Ad": the result is whether \<open>st.rerun()\<close> ended the run.\<close>

definition watch_ad :: "request \<Rightarrow> session \<times> db \<Rightarrow> bool outcome" where
  "watch_ad rq sd =
     (case sd of (s, d) \<Rightarrow>
        (case user_id s of
           None \<Rightarrow> (Inl AttributeError, s, d)
         | Some uid \<Rightarrow>
             (case show_ads_to_user uid (rq_now rq) (s, d) of
                ((success, message), s1, d1) \<Rightarrow>
                  (if success
                   then (case current_ad s1 of
                           None \<Rightarrow> (Inl KeyError, s1, d1)
                         | Some ad \<Rightarrow>
                             (case coins s1 of
                                None \<Rightarrow> (Inl AttributeError, s1, d1)
                              | Some c \<Rightarrow>
                                  (let s2 = s1\<lparr>coins := Some (c + ad_coins ad)\<rparr>
                                   in (case ads_watched s2 of
                                         None \<Rightarrow> (Inl AttributeError, s2, d1)
                                       | Some aw \<Rightarrow>
                                           (Inr True, s2\<lparr>ads_watched := Some (aw + 1)\<rparr>, d1)))))
                   else (Inr False, s1, d1)))))"

text \<open>The loop over the ad buttons: at most one of them was clicked, and only a button
  that was drawn can be.\<close>

definition ad_section :: "request \<Rightarrow> int \<Rightarrow> session \<times> db \<Rightarrow> bool outcome" where
  "ad_section rq required sd =
     (case sd of (s, d) \<Rightarrow>
        (case caption_count s of
           None \<Rightarrow> (Inl AttributeError, s, d)
         | Some cc \<Rightarrow>
             (if needs_ads cc
              then (case rq_click rq of
                      Watch_ad i \<Rightarrow>
                        (if int i < required then watch_ad rq (s, d) else (Inr False, s, d))
                    | _ \<Rightarrow> (Inr False, s, d))
              else (Inr False, s, d))))"

text \<open>"Save to history": the \<open>INSERT INTO captions\<close> and the \<open>UPDATE users\<close>, committed
  together.\<close>

definition touch_row :: "string \<Rightarrow> nat \<Rightarrow> user_row \<Rightarrow> user_row" where
  "touch_row dev now r =
     (if u_device_id r = dev
      then r\<lparr>u_caption_count := u_caption_count r + 1, u_last_active := Some now\<rparr>
      else r)"

definition save_caption ::
  "int \<Rightarrow> string \<Rightarrow> string \<Rightarrow> ustr \<Rightarrow> ustr \<Rightarrow> nat \<Rightarrow> db \<Rightarrow> db" where
  "save_caption uid dev img_hash cap tags now d =
     d\<lparr>captions := captions d @
          [\<lparr>cap_id = captions_seq d + 1, cap_user_id = uid, image_hash = img_hash,
            caption = cap, hashtags = tags, cap_created_at = now\<rparr>],
       captions_seq := captions_seq d + 1,
       users := map (touch_row dev now) (users d)\<rparr>"

text \<open>The body of the generate button. The arguments of the \<open>INSERT\<close> are read
  before it runs, those of the \<open>UPDATE\<close> before the commit.\<close>

definition generate_click ::
  "(ustr \<Rightarrow> ustr) \<Rightarrow> request \<Rightarrow> upload \<Rightarrow> session \<times> db \<Rightarrow> unit outcome" where
  "generate_click capitalize rq up sd =
     (case sd of (s, d) \<Rightarrow>
        (case generate_caption capitalize (up_description up) (rq_style rq) of
           Inl e \<Rightarrow> (Inl e, s, d)
         | Inr (cap, tags) \<Rightarrow>
             (case user_id s of
                None \<Rightarrow> (Inl AttributeError, s, d)
              | Some uid \<Rightarrow>
                  (case device_id s of
                     None \<Rightarrow> (Inl AttributeError, s, d)
                   | Some dev \<Rightarrow>
                       (let d1 = save_caption uid dev (up_image_hash up) cap tags (rq_now rq) d
                        in (case caption_count s of
                              None \<Rightarrow> (Inl AttributeError, s, d1)
                            | Some cc \<Rightarrow> (Inr (), s\<lparr>caption_count := Some (cc + 1)\<rparr>, d1)))))))"

definition generate_section ::
  "(ustr \<Rightarrow> ustr) \<Rightarrow> request \<Rightarrow> upload \<Rightarrow> int \<Rightarrow> session \<times> db \<Rightarrow> unit outcome" where
  "generate_section capitalize rq up required sd =
     (case sd of (s, d) \<Rightarrow>
        (case generate_disabled s required of
           Inl e \<Rightarrow> (Inl e, s, d)
         | Inr disabled \<Rightarrow>
             (if rq_click rq = Generate \<and> \<not> disabled
              then generate_click capitalize rq up (s, d)
              else (Inr (), s, d))))"

definition main_user_app :: "(ustr \<Rightarrow> ustr) \<Rightarrow> request \<Rightarrow> session \<times> db \<Rightarrow> unit outcome" where
  "main_user_app capitalize rq sd =
     (case init_session rq sd of
        (Inl e, s1, d1) \<Rightarrow> (Inl e, s1, d1)
      | (Inr _, s1, d1) \<Rightarrow>
          (case caption_count s1 of
             None \<Rightarrow> (Inl AttributeError, s1, d1)
           | Some _ \<Rightarrow>
               (case coins s1 of
                  None \<Rightarrow> (Inl AttributeError, s1, d1)
                | Some _ \<Rightarrow>
                    (case rq_upload rq of
                       None \<Rightarrow> (Inr (), s1, d1)
                     | Some up \<Rightarrow>
                         (case ad_section rq (ads_required d1) (s1, d1) of
                            (Inl e, s2, d2) \<Rightarrow> (Inl e, s2, d2)
                          | (Inr rerun, s2, d2) \<Rightarrow>
                              (if rerun then (Inr (), s2, d2)
                               else generate_section capitalize rq up (ads_required d1)
                                      (s2, d2)))))))"

section \<open>The coin ledger\<close>

text \<open>What the \<open>ad_events\<close> rows of a user add up to: the coins they record and
  their number.\<close>

definition events_of :: "db \<Rightarrow> int \<Rightarrow> ad_event_row list" where
  "events_of d uid = filter (\<lambda>e. e_user_id e = uid) (ad_events d)"

definition ledger_coins :: "db \<Rightarrow> int \<Rightarrow> int" where
  "ledger_coins d uid = sum_list (map coins_earned (events_of d uid))"

definition ledger_count :: "db \<Rightarrow> int \<Rightarrow> int" where
  "ledger_count d uid = int (length (events_of d uid))"

definition row_balanced :: "db \<Rightarrow> user_row \<Rightarrow> bool" where
  "row_balanced d r \<longleftrightarrow>
     u_coins r = ledger_coins d (u_id r) \<and> u_ad_watched r = ledger_count d (u_id r)"

definition ledger_ok :: "db \<Rightarrow> bool" where
  "ledger_ok d = list_all (row_balanced d) (users d)"

text \<open>
  The states of the store the operations lead to from the empty database: a
  registration, an ad completion for a registered user, a saved caption, an inserted or
  edited ad configuration and, when \<open>grants\<close> is set, the admin's coin grant (a
  listed user, 1 to 100 coins, as the form allows).
\<close>

inductive reachable :: "bool \<Rightarrow> db \<Rightarrow> bool" for grants :: bool where
  reach_init: "reachable grants init_db"
| reach_register:
    "reachable grants d \<Longrightarrow> register_user dev now d = Inr d' \<Longrightarrow> reachable grants d'"
| reach_ad:
    "reachable grants d \<Longrightarrow> uid \<in> set (map u_id (users d)) \<Longrightarrow>
     show_ads_to_user uid now (s, d) = (r, s', d') \<Longrightarrow> reachable grants d'"
| reach_caption:
    "reachable grants d \<Longrightarrow> reachable grants (save_caption uid dev img_hash cap tags now d)"
| reach_config:
    "reachable grants d \<Longrightarrow>
     reachable grants (insert_ad_config platform key prio active per_use reward d)"
| reach_edit:
    "reachable grants d \<Longrightarrow> reachable grants (save_config_edits es d)"
| reach_grant:
    "grants \<Longrightarrow> reachable grants d \<Longrightarrow> uid \<in> set (map u_id (users d)) \<Longrightarrow>
     1 \<le> amount \<Longrightarrow> amount \<le> 100 \<Longrightarrow> reachable grants (admin_add_coins amount uid d)"

text \<open>
  What the coin grant leaves of the ledger: the ad count still equals the number of
  events, and the balance is at least what the events record.
\<close>

definition row_counted :: "db \<Rightarrow> user_row \<Rightarrow> bool" where
  "row_counted d r \<longleftrightarrow>
     u_ad_watched r = ledger_count d (u_id r) \<and> ledger_coins d (u_id r) \<le> u_coins r"

text \<open>Every event belongs to a registered user, and no user id exceeds the counter of
  the \<open>users\<close> table.\<close>

definition refs_ok :: "db \<Rightarrow> bool" where
  "refs_ok d \<longleftrightarrow>
     list_all (\<lambda>e. e_user_id e \<in> set (map u_id (users d))) (ad_events d) \<and>
     list_all (\<lambda>r. u_id r \<le> users_seq d) (users d)"

text \<open>What every reachable state satisfies; without grants the ledger is exact.\<close>

definition store_inv :: "bool \<Rightarrow> db \<Rightarrow> bool" where
  "store_inv grants d \<longleftrightarrow>
     refs_ok d \<and> list_all (row_counted d) (users d) \<and> (\<not> grants \<longrightarrow> ledger_ok d)"

section \<open>Example states\<close>

text \<open>Three saved configurations: Unity Ads (priority 3, active), start.io
  (priority 1, active) and AppLovin (priority 1, not active).\<close>

definition ex_configs :: db where
  "ex_configs =
     insert_ad_config (u ''AppLovin'') (u ''k3'') 1 False 5 7
       (insert_ad_config (u ''start.io'') (u ''k2'') 1 True 2 3
          (insert_ad_config (u ''Unity Ads'') (u ''k1'') 3 True 3 4 init_db))"

text \<open>The same store after the first visit of a device at time 100.\<close>

definition ex_user :: db where
  "ex_user = ex_configs\<lparr>users :=
       [\<lparr>u_id = 1, u_device_id = ''0123456789ab'', u_created_at = 100,
         u_last_active = None, u_caption_count = 0, u_ad_watched = 0, u_coins = 0\<rparr>],
     users_seq := 1\<rparr>"

text \<open>After that device completed one ad at time 200 (start.io, 3 coins).\<close>

definition ex_paid :: db where
  "ex_paid = ex_user\<lparr>users :=
       [\<lparr>u_id = 1, u_device_id = ''0123456789ab'', u_created_at = 100,
         u_last_active = None, u_caption_count = 0, u_ad_watched = 1, u_coins = 3\<rparr>],
     ad_events :=
       [\<lparr>e_id = 1, e_user_id = 1, e_platform_id = 2, e_timestamp = 200,
         coins_earned = 3\<rparr>],
     ad_events_seq := 1\<rparr>"

text \<open>The store \<open>ex_user\<close> after the admin granted 10 coins to user 1.\<close>

definition ex_granted :: db where
  "ex_granted = admin_add_coins 10 1 ex_user"

text \<open>A store whose only configuration asks for no ad ("Ads required per use" set
  to 0), before and after the first visit of the device.\<close>

definition ex_free :: db where
  "ex_free = insert_ad_config (u ''Unity Ads'') (u ''k1'') 1 True 0 3 init_db"

definition ex_free_user :: db where
  "ex_free_user = ex_free\<lparr>users :=
       [\<lparr>u_id = 1, u_device_id = ''0123456789ab'', u_created_at = 100,
         u_last_active = None, u_caption_count = 0, u_ad_watched = 0, u_coins = 0\<rparr>],
     users_seq := 1\<rparr>"

text \<open>The first request of that device, at time 100: a photo that the model describes
  as "a dog on the grass", the style "Smart", and a click on the generate button.\<close>

definition ex_upload :: upload where
  "ex_upload = \<lparr>up_image_hash = ''9e107d9d372bb6826bd81d3542a419d6'',
                 up_description = u ''a dog on the grass''\<rparr>"

definition ex_request :: request where
  "ex_request = \<lparr>rq_token = ''0123456789ab'', rq_now = 100, rq_upload = Some ex_upload,
                  rq_style = style_smart, rq_click = Generate\<rparr>"

text \<open>The empty database after the first visit of the device: no ad platform is
  configured.\<close>

definition ex_first_user :: db where
  "ex_first_user = init_db\<lparr>users :=
       [\<lparr>u_id = 1, u_device_id = ''0123456789ab'', u_created_at = 100,
         u_last_active = None, u_caption_count = 0, u_ad_watched = 0, u_coins = 0\<rparr>],
     users_seq := 1\<rparr>"

text \<open>The session of that device once it is initialised, with given values of the
  caption counter and of the ad counter.\<close>

definition session_at :: "int \<Rightarrow> int \<Rightarrow> session" where
  "session_at cc aw =
     \<lparr>device_id = Some ''0123456789ab'', coins = Some 0, caption_count = Some cc,
      ads_watched = Some aw, current_ad = None, user_id = None\<rparr>"

text \<open>Two benefit texts, and the settings file after a save of the longer one. A
  float stands for itself as its \<open>repr\<close> here.\<close>

definition ex_benefits :: ustr where
  "ex_benefits = 9989 # u '' No ads'' @ 10 # 128640 # u '' Priority processing''"

definition ex_benefits_old :: ustr where
  "ex_benefits_old =
     9989 # u '' No ads'' @ 10 # 9989 # u '' Priority processing'' @
     10 # 9989 # u '' Advanced styles''"

definition ex_prior :: files where
  "ex_prior =
     save_business_settings (\<lambda>t. t) 5 (u ''9.99'') ex_benefits_old Map.empty"

section \<open>Facts about the example states\<close>

lemma ex_active:
  "active_configs ex_configs =
     [\<lparr>c_id = 1, platform_name = u ''Unity Ads'', api_key = u ''k1'', priority = 3,
       is_active = 1, ads_per_use = 3, min_coins = 4\<rparr>,
      \<lparr>c_id = 2, platform_name = u ''start.io'', api_key = u ''k2'', priority = 1,
       is_active = 1, ads_per_use = 2, min_coins = 3\<rparr>]"
  by (simp add: active_configs_def ex_configs_def insert_ad_config_def init_db_def)

lemma ex_required: "ads_required ex_configs = 2"
  by (simp add: ads_required_def get_active_ad_platforms_def ex_active)

lemma ex_register: "register_user ''0123456789ab'' 100 ex_configs = Inr ex_user"
  by (simp add: register_user_def ex_user_def ex_configs_def insert_ad_config_def init_db_def)

lemma ex_caption:
  "generate_caption ascii_capitalize (u ''a dog on the grass'') style_smart =
     Inr (u ''A dog on the grass'', u ''#grass #InstaAI #SocialMedia'')"
  by (simp add: generate_caption_def styles_def py_index_def py_split1_def py_getitem_def
        py_get_def hashtags_of_def keywords_of_def py_split_def flush_def py_isspace_def
        ascii_capitalize_def ascii_upper_def ascii_lower_def u_def style_smart_def)



lemma ex_show:
  "show_ads_to_user 1 200 (fresh_session, ex_user) =
     ((True, Earned 3),
      fresh_session\<lparr>current_ad := Some \<lparr>ad_platform = u ''start.io'', ad_coins = 3,
                                               ad_start_time = 200\<rparr>\<rparr>,
      ex_paid)"
  by (simp add: show_ads_to_user_def get_active_ad_platforms_def active_configs_def ex_user_def
       ex_paid_def ex_configs_def insert_ad_config_def init_db_def credit_user_def)

lemma ex_show_none:
  "show_ads_to_user 1 200 (fresh_session, init_db) =
     ((False, No_active_ad_platforms), fresh_session, init_db)"
  by (simp add: show_ads_to_user_def get_active_ad_platforms_def active_configs_def init_db_def)

lemma ex_insert_sorted:
  "map platform_name (get_active_ad_platforms
      (insert_ad_config (u ''Google AdMob'') (u ''k4'') 2 True 1 5 ex_configs)) =
   [u ''start.io'', u ''Google AdMob'', u ''Unity Ads'']"
  by (simp add: get_active_ad_platforms_def active_configs_def ex_configs_def
        insert_ad_config_def init_db_def)

section \<open>The active platforms in priority order\<close>

lemma get_active_set: "set (get_active_ad_platforms d) = set (active_configs d)"
  by (simp add: get_active_ad_platforms_def)

lemma get_active_sorted: "sorted (map priority (get_active_ad_platforms d))"
  by (simp add: get_active_ad_platforms_def)

lemma get_active_Nil: "get_active_ad_platforms d = [] \<longleftrightarrow> active_configs d = []"
  by (metis get_active_set set_empty)

lemma get_active_Cons:
  assumes "get_active_ad_platforms d = p # ps"
  shows "p \<in> set (active_configs d)"
    and "\<forall>c\<in>set (active_configs d). priority p \<le> priority c"
proof -
  show "p \<in> set (active_configs d)"
    using assms get_active_set [of d] by auto
  have "sorted (map priority (p # ps))"
    using assms get_active_sorted [of d] by simp
  then have "\<forall>c\<in>set (p # ps). priority p \<le> priority c"
    by auto
  then show "\<forall>c\<in>set (active_configs d). priority p \<le> priority c"
    using assms get_active_set [of d] by auto
qed

text \<open>
  Claim C6. With no active ad platform configuration the end-user flow takes 1 as the
  required ad count; with at least one it takes the \<open>ads_per_use\<close> of an active
  configuration whose priority number is the lowest among the active ones.
\<close>

theorem ads_required_rule:
  "(active_configs d = [] \<longrightarrow> ads_required d = 1) \<and>
   (active_configs d \<noteq> [] \<longrightarrow>
      (\<exists>p\<in>set (active_configs d).
         ads_required d = ads_per_use p \<and>
         (\<forall>c\<in>set (active_configs d). priority p \<le> priority c)))"
proof (cases "get_active_ad_platforms d")
  case Nil
  then show ?thesis
    using get_active_Nil [of d] by (simp add: ads_required_def)
next
  case (Cons p ps)
  then have "active_configs d \<noteq> []"
    using get_active_Nil [of d] by simp
  moreover have "ads_required d = ads_per_use p"
    using Cons by (simp add: ads_required_def)
  ultimately show ?thesis
    using get_active_Cons [OF Cons] by blast
qed

theorem ads_required_rule_witness:
  "active_configs init_db = [] \<and> ads_required init_db = 1 \<and>
   active_configs ex_configs \<noteq> [] \<and> ads_required ex_configs = 2 \<and>
   (\<exists>p\<in>set (active_configs ex_configs).
      ads_required ex_configs = ads_per_use p \<and>
      (\<forall>c\<in>set (active_configs ex_configs). priority p \<le> priority c))"
proof -
  have e: "active_configs init_db = []"
    by (simp add: active_configs_def init_db_def)
  have n: "active_configs ex_configs \<noteq> []"
    by (simp add: ex_active)
  show ?thesis
    using e n ads_required_rule [of init_db] ads_required_rule [of ex_configs] ex_required
    by simp
qed

section \<open>Business settings\<close>

subsection \<open>Writing the file\<close>

lemma fold_fwrite:
  "fs (w_path w) = Some c \<Longrightarrow> w_pos w = length c \<Longrightarrow>
   snd (fold fwrite chunks (w, fs)) = fs(w_path w \<mapsto> c @ concat chunks)"
proof (induction chunks arbitrary: w fs c)
  case Nil
  then show ?case by (simp add: fun_upd_idem)
next
  case (Cons s chunks)
  define w' where "w' = w\<lparr>w_pos := length (c @ s)\<rparr>"
  define fs' where "fs' = fs(w_path w \<mapsto> c @ s)"
  have step: "fwrite s (w, fs) = (w', fs')"
    by (simp add: fwrite_def Cons.prems file_text_def write_at_def w'_def fs'_def)
  have p: "w_path w' = w_path w"
    by (simp add: w'_def)
  have "snd (fold fwrite chunks (w', fs')) = fs'(w_path w' \<mapsto> (c @ s) @ concat chunks)"
    by (rule Cons.IH) (simp_all add: w'_def fs'_def)
  then have "snd (fold fwrite (s # chunks) (w, fs)) =
               fs'(w_path w \<mapsto> (c @ s) @ concat chunks)"
    by (simp add: step p)
  then show ?case
    by (simp add: fs'_def)
qed

lemma save_text:
  "save_business_settings float_repr a p b fs =
     fs(''business_config.json'' \<mapsto>
          concat (json_chunks float_repr
            [(u ''free_tier_ads'', JInt a), (u ''premium_price'', JFloat p),
             (u ''premium_benefits'', JStr b)]))"
  unfolding save_business_settings_def json_dump_def open_w_def
  by (subst fold_fwrite [where c = "[]"]) simp_all

subsection \<open>Strings\<close>

lemma hex_value_digit: "v < 16 \<Longrightarrow> hex_value (hex_digit v) = Some v"
  by (auto simp: hex_value_def hex_digit_def)

lemma decode_digits:
  "a < 16 \<Longrightarrow> b < 16 \<Longrightarrow> c < 16 \<Longrightarrow> d < 16 \<Longrightarrow>
   decode_uXXXX (hex_digit a # hex_digit b # hex_digit c # hex_digit d # t) =
     Some (((a * 16 + b) * 16 + c) * 16 + d)"
  by (simp add: decode_uXXXX_def hex_value_digit)

lemma hex4_value:
  assumes "n < 65536"
  shows "((n div 4096 mod 16 * 16 + n div 256 mod 16) * 16 + n div 16 mod 16) * 16 + n mod 16 =
           (n::nat)"
proof -
  define a where "a = n div 16"
  define b where "b = a div 16"
  define c where "c = b div 16"
  have 1: "n div 256 = b" "n div 4096 = c"
    by (simp_all add: a_def b_def c_def div_mult2_eq)
  have "c < 16"
    using assms unfolding 1(2) [symmetric] by simp
  then have 2: "c mod 16 = c"
    by simp
  have 3: "n = a * 16 + n mod 16" "a = b * 16 + a mod 16" "b = c * 16 + b mod 16"
    by (simp_all add: a_def b_def c_def)
  have "((c * 16 + b mod 16) * 16 + a mod 16) * 16 + n mod 16 = n"
    using 3 by simp
  then show ?thesis
    by (simp only: 1 2 a_def [symmetric])
qed

lemma decode_hex4:
  assumes "n < 65536"
  shows "decode_uXXXX (hex4 n @ t) = Some n"
proof -
  have "decode_uXXXX (hex4 n @ t) =
          Some (((n div 4096 mod 16 * 16 + n div 256 mod 16) * 16 + n div 16 mod 16) * 16 +
                n mod 16)"
    unfolding hex4_def by (simp only: append_Cons append_Nil) (rule decode_digits; simp)
  then show ?thesis
    by (simp only: hex4_value [OF assms])
qed

lemma scan_u:
  assumes "n < 65536" and "\<not> (55296 \<le> n \<and> n \<le> 56319)"
  shows "py_scanstring (92 # 117 # hex4 n @ t) = cons_char n (py_scanstring t)"
proof -
  define s1 where "s1 = hex4 n @ t"
  have a: "decode_uXXXX s1 = Some n"
    unfolding s1_def using assms by (simp add: decode_hex4)
  have d: "drop 4 s1 = t"
    unfolding s1_def by (simp add: hex4_def)
  have "py_scanstring (92 # 117 # s1) = cons_char n (py_scanstring t)"
    using assms(2) by (auto simp: a d)
  then show ?thesis
    by (simp add: s1_def)
qed

lemma scan_pair:
  assumes "55296 \<le> hi" "hi \<le> 56319" "56320 \<le> lo" "lo \<le> 57343"
  shows "py_scanstring (92 # 117 # hex4 hi @ 92 # 117 # hex4 lo @ t) =
           cons_char (65536 + ((hi - 55296) * 1024 + (lo - 56320))) (py_scanstring t)"
proof -
  define s1 where "s1 = hex4 hi @ 92 # 117 # hex4 lo @ t"
  have a: "decode_uXXXX s1 = Some hi"
    unfolding s1_def using assms by (simp add: decode_hex4)
  have b: "take 2 (drop 4 s1) = [92, 117]" "drop 10 s1 = t"
    unfolding s1_def by (simp_all add: hex4_def)
  have "drop 6 s1 = hex4 lo @ t"
    unfolding s1_def by (simp add: hex4_def)
  then have c: "decode_uXXXX (drop 6 s1) = Some lo"
    using assms by (simp add: decode_hex4)
  have "py_scanstring (92 # 117 # s1) =
          cons_char (65536 + ((hi - 55296) * 1024 + (lo - 56320))) (py_scanstring t)"
    using assms by (simp add: a b c)
  then show ?thesis
    by (simp add: s1_def)
qed

lemma scan_escape_char:
  assumes "scalar_value c"
  shows "py_scanstring (escape_char c @ t) = cons_char c (py_scanstring t)"
proof -
  consider (short) "c \<in> {92, 34, 8, 12, 10, 13, 9}"
    | (plain) "c \<notin> {92, 34, 8, 12, 10, 13, 9}" "32 \<le> c" "c \<le> 126"
    | (bmp) "c \<notin> {92, 34, 8, 12, 10, 13, 9}" "\<not> (32 \<le> c \<and> c \<le> 126)" "c < 65536"
    | (astral) "65536 \<le> c"
    by fastforce
  then show ?thesis
  proof cases
    case short
    then show ?thesis
      by (auto simp: escape_char_def unescape_def)
  next
    case plain
    then show ?thesis
      by (simp add: escape_char_def)
  next
    case bmp
    have e: "escape_char c = 92 # 117 # hex4 c"
      using bmp by (simp add: escape_char_def)
    have "\<not> (55296 \<le> c \<and> c \<le> 56319)"
      using assms bmp by (auto simp: scalar_value_def)
    then show ?thesis
      unfolding e using scan_u [of c t] bmp by simp
  next
    case astral
    define v where "v = c - 65536"
    have v: "v < 1048576" "c = 65536 + v"
      using assms astral by (auto simp: scalar_value_def v_def)
    have e: "escape_char c =
               92 # 117 # hex4 (55296 + v div 1024 mod 1024) @
               92 # 117 # hex4 (56320 + v mod 1024)"
      using astral by (simp add: escape_char_def v_def)
    have "v div 1024 < 1024"
      using v(1) by simp
    then have r: "65536 + ((55296 + v div 1024 mod 1024 - 55296) * 1024 +
               (56320 + v mod 1024 - 56320)) = c"
      using v(2) by simp
    have "py_scanstring (92 # 117 # hex4 (55296 + v div 1024 mod 1024) @
            92 # 117 # hex4 (56320 + v mod 1024) @ t) = cons_char c (py_scanstring t)"
      unfolding r [symmetric] by (rule scan_pair) simp_all
    then show ?thesis
      unfolding e by simp
  qed
qed

lemma scan_escaped:
  "list_all scalar_value s \<Longrightarrow>
   py_scanstring (concat (map escape_char s) @ 34 # rest) = Inr (s, rest)"
  by (induction s) (simp_all add: scan_escape_char cons_char_def)

lemma scan_once_string:
  "list_all scalar_value s \<Longrightarrow>
   scan_once float_of (py_encode_basestring_ascii s @ rest) = Inr (JStr s, rest)"
  by (simp add: scan_once_def py_encode_basestring_ascii_def scan_escaped)


subsection \<open>Numbers\<close>

lemma digits_of_digits: "list_all is_digit (digits_of n)"
proof (induction n rule: digits_of.induct)
  case (1 n)
  have "is_digit (48 + n)" if "n < 10"
    using that by (simp add: is_digit_def)
  moreover have "is_digit (48 + n mod 10)"
    by (simp add: is_digit_def)
  ultimately show ?case
    using 1 by (subst digits_of.simps) auto
qed

lemma digits_of_ne: "digits_of n \<noteq> []"
  by (subst digits_of.simps) simp

lemma digits_of_hd: "hd (digits_of n) = 48 \<Longrightarrow> digits_of n = [48]"
proof (induction n rule: digits_of.induct)
  case (1 n)
  show ?case
  proof (cases "n < 10")
    case True
    then show ?thesis
      using "1.prems" by (subst digits_of.simps, subst (asm) digits_of.simps) simp
  next
    case False
    then have "hd (digits_of (n div 10)) = 48"
      using "1.prems" digits_of_ne [of "n div 10"]
      by (subst (asm) digits_of.simps) simp
    then have "digits_of (n div 10) = [48]"
      using False by (rule "1.IH" [rotated])
    moreover have "n div 10 \<noteq> 0"
      using False by simp
    then have "digits_of (n div 10) \<noteq> [48]"
      by (subst digits_of.simps) (auto simp: digits_of_ne)
    ultimately show ?thesis
      by simp
  qed
qed

lemma nat_of_digits_snoc: "nat_of_digits (ds @ [c]) = nat_of_digits ds * 10 + (c - 48)"
  by (simp add: nat_of_digits_def)

lemma nat_of_digits_of: "nat_of_digits (digits_of n) = n"
proof (induction n rule: digits_of.induct)
  case (1 n)
  show ?case
  proof (cases "n < 10")
    case True
    then show ?thesis
      by (subst digits_of.simps) (simp add: nat_of_digits_def)
  next
    case False
    then show ?thesis
      using "1.IH" by (subst digits_of.simps) (simp add: nat_of_digits_snoc)
  qed
qed

lemma scan_integer_plain:
  assumes "ds \<noteq> []" "list_all is_digit ds" "hd ds = 48 \<Longrightarrow> ds = [48]" "\<not> is_digit c"
  shows "scan_integer (ds @ c # r) = Some (ds, c # r)"
proof -
  obtain d ds' where ds: "ds = d # ds'"
    using assms(1) by (cases ds) auto
  have d: "is_digit d" "d \<noteq> 45"
    using assms(2) by (auto simp: ds is_digit_def)
  have t: "takeWhile is_digit (ds @ c # r) = ds" "dropWhile is_digit (ds @ c # r) = c # r"
    using assms(2,4) by (simp_all add: list_all_iff takeWhile_append2 dropWhile_append2)
  have s: "take 1 (ds @ c # r) \<noteq> [45]"
    using d by (simp add: ds)
  show ?thesis
  proof (cases "hd ds = 48")
    case True
    then have "ds = [48]" by (rule assms(3))
    then show ?thesis
      using s t by (simp add: scan_integer_def)
  next
    case False
    then show ?thesis
      using s t assms(1) by (simp add: scan_integer_def)
  qed
qed

lemma scan_integer_minus:
  assumes "ds \<noteq> []" "list_all is_digit ds" "hd ds = 48 \<Longrightarrow> ds = [48]" "\<not> is_digit c"
  shows "scan_integer (45 # ds @ c # r) = Some (45 # ds, c # r)"
proof -
  have t: "takeWhile is_digit (ds @ c # r) = ds" "dropWhile is_digit (ds @ c # r) = c # r"
    using assms(2,4) by (simp_all add: list_all_iff takeWhile_append2 dropWhile_append2)
  show ?thesis
  proof (cases "hd ds = 48")
    case True
    then have "ds = [48]" by (rule assms(3))
    then show ?thesis
      using t by (simp add: scan_integer_def)
  next
    case False
    then show ?thesis
      using t assms(1) by (simp add: scan_integer_def)
  qed
qed

lemma scan_integer_repr:
  "scan_integer (py_repr_int a @ 44 # r) = Some (py_repr_int a, 44 # r)"
proof -
  have c: "\<not> is_digit 44"
    by (simp add: is_digit_def)
  show ?thesis
    unfolding py_repr_int_def
    using scan_integer_plain [OF digits_of_ne digits_of_digits digits_of_hd c]
      scan_integer_minus [OF digits_of_ne digits_of_digits digits_of_hd c]
    by simp
qed

lemma py_int_repr: "py_int (py_repr_int a) = a"
proof -
  obtain d ds where ds: "digits_of (nat a) = d # ds"
    using digits_of_ne [of "nat a"] by (cases "digits_of (nat a)") auto
  have "d \<noteq> 45"
    using digits_of_digits [of "nat a"] by (auto simp: ds is_digit_def)
  then have "take 1 (digits_of (nat a)) \<noteq> [45]"
    by (simp add: ds)
  then show ?thesis
    by (simp add: py_int_def py_repr_int_def nat_of_digits_of)
qed

lemma scan_frac_comma: "scan_frac (44 # r) = ([], 44 # r)"
  by (simp add: scan_frac_def)

lemma scan_exp_comma: "scan_exp (44 # r) = ([], 44 # r)"
  by (simp add: scan_exp_def)

lemma match_number_int:
  "match_number float_of (py_repr_int a @ 44 # r) = Some (JInt a, 44 # r)"
  by (simp add: match_number_def scan_integer_repr scan_frac_comma scan_exp_comma py_int_repr)

lemma repr_int_head:
  "\<exists>d t. is_digit d \<and> (py_repr_int a = d # t \<or> py_repr_int a = 45 # d # t)"
proof -
  have "\<exists>d t. is_digit d \<and> digits_of n = d # t" for n
    using digits_of_ne [of n] digits_of_digits [of n] by (cases "digits_of n") auto
  then show ?thesis
    unfolding py_repr_int_def by (metis (full_types))
qed

lemma scan_once_number:
  assumes "is_digit d" and "t = d # t' \<or> t = 45 # d # t'"
  shows "scan_once float_of (t @ r) =
           (case match_number float_of (t @ r) of None \<Rightarrow> Inl JSONDecodeError | Some x \<Rightarrow> Inr x)"
  using assms by (auto simp: scan_once_def is_digit_def u_def)

lemma scan_once_int: "scan_once float_of (py_repr_int a @ 44 # r) = Inr (JInt a, 44 # r)"
proof -
  obtain d t where "is_digit d" "py_repr_int a = d # t \<or> py_repr_int a = 45 # d # t"
    using repr_int_head by blast
  then show ?thesis
    by (simp add: scan_once_number [of d "py_repr_int a" t] match_number_int)
qed

lemma skip_ws_number:
  assumes "is_digit d" and "t = d # t' \<or> t = 45 # d # t'"
  shows "skip_ws (t @ r) = t @ r"
  using assms by (auto simp: skip_ws_def is_ws_def is_digit_def)


lemma scan_integer_app:
  "scan_integer (s @ 44 # r) = map_option (\<lambda>(i, t). (i, t @ 44 # r)) (scan_integer s)"
proof -
  have c: "\<not> is_digit 44"
    by (simp add: is_digit_def)
  have t: "takeWhile is_digit (x @ 44 # r) = takeWhile is_digit x"
    "dropWhile is_digit (x @ 44 # r) = dropWhile is_digit x @ 44 # r" for x
    using c by (simp_all add: takeWhile_tail dropWhile_append3)
  show ?thesis
  proof (cases s)
    case Nil
    then show ?thesis
      by (simp add: scan_integer_def c)
  next
    case (Cons a s')
    show ?thesis
    proof (cases "a = 45")
      case True
      then show ?thesis
        using t [of s'] by (cases s') (auto simp: scan_integer_def Cons Let_def c)
    next
      case False
      then show ?thesis
        using t [of "a # s'"] by (auto simp: scan_integer_def Cons Let_def)
    qed
  qed
qed

lemma scan_frac_app:
  "scan_frac (s @ 44 # r) = (case scan_frac s of (f, t) \<Rightarrow> (f, t @ 44 # r))"
proof -
  have c: "\<not> is_digit 44"
    by (simp add: is_digit_def)
  have t: "takeWhile is_digit (x @ 44 # r) = takeWhile is_digit x"
    "dropWhile is_digit (x @ 44 # r) = dropWhile is_digit x @ 44 # r" for x
    using c by (simp_all add: takeWhile_tail dropWhile_append3)
  show ?thesis
    using t by (cases s) (auto simp: scan_frac_def)
qed

lemma scan_exp_app:
  "scan_exp (s @ 44 # r) = (case scan_exp s of (e, t) \<Rightarrow> (e, t @ 44 # r))"
proof -
  have c: "\<not> is_digit 44"
    by (simp add: is_digit_def)
  have t: "takeWhile is_digit (x @ 44 # r) = takeWhile is_digit x"
    "dropWhile is_digit (x @ 44 # r) = dropWhile is_digit x @ 44 # r" for x
    using c by (simp_all add: takeWhile_tail dropWhile_append3)
  show ?thesis
  proof (cases s)
    case Nil
    then show ?thesis
      by (simp add: scan_exp_def)
  next
    case (Cons a s')
    show ?thesis
    proof (cases s')
      case Nil
      then show ?thesis
        by (auto simp: scan_exp_def Cons Let_def c)
    next
      case (Cons b s'')
      then show ?thesis
        using t [of s'] t [of s'']
        by (auto simp: scan_exp_def \<open>s = a # s'\<close> Let_def)
    qed
  qed
qed

lemma scan_integer_split: "scan_integer s = Some (i, t) \<Longrightarrow> s = i @ t"
proof -
  have h: "x = hd (takeWhile is_digit x) # tl x" if "takeWhile is_digit x \<noteq> []" for x
    using that by (cases x) (auto split: if_splits)
  assume a: "scan_integer s = Some (i, t)"
  show ?thesis
  proof (cases "take 1 s = [45]")
    case True
    then obtain s' where s: "s = 45 # s'"
      by (cases s) auto
    show ?thesis
      using a h [of s']
      by (auto simp: scan_integer_def s Let_def split: if_splits)
  next
    case False
    then show ?thesis
      using a h [of s]
      by (auto simp: scan_integer_def Let_def split: if_splits)
  qed
qed

lemma scan_frac_split: "scan_frac s = (f, t) \<Longrightarrow> s = f @ t"
  by (cases s) (auto simp: scan_frac_def split: if_splits)

lemma scan_exp_split: "scan_exp s = (e, t) \<Longrightarrow> s = e @ t"
proof -
  assume a: "scan_exp s = (e, t)"
  show ?thesis
  proof (cases s)
    case Nil
    then show ?thesis
      using a by (simp add: scan_exp_def)
  next
    case (Cons x s')
    then show ?thesis
      using a by (cases s') (auto simp: scan_exp_def Let_def split: if_splits)
  qed
qed

lemma scan_integer_head:
  "scan_integer s = Some (i, t) \<Longrightarrow>
   \<exists>d s'. is_digit d \<and> (s = d # s' \<or> s = 45 # d # s')"
proof -
  have h: "\<exists>d x'. is_digit d \<and> x = d # x'" if "takeWhile is_digit x \<noteq> []" for x
    using that by (cases x) (auto split: if_splits)
  assume a: "scan_integer s = Some (i, t)"
  show ?thesis
  proof (cases "take 1 s = [45]")
    case True
    then obtain s' where s: "s = 45 # s'"
      by (cases s) auto
    have "takeWhile is_digit s' \<noteq> []"
      using a by (auto simp: scan_integer_def s Let_def split: if_splits)
    then show ?thesis
      using h [of s'] s by blast
  next
    case False
    then have "takeWhile is_digit s \<noteq> []"
      using a by (auto simp: scan_integer_def Let_def split: if_splits)
    then show ?thesis
      using h [of s] by blast
  qed
qed

lemma float_literal_parts:
  assumes "float_literal t"
  obtains i s1 f s2 e where "scan_integer t = Some (i, s1)" "scan_frac s1 = (f, s2)"
    "scan_exp s2 = (e, [])" "f \<noteq> [] \<or> e \<noteq> []"
  using assms
  by (auto simp: float_literal_def split: option.splits prod.splits)

lemma match_number_float:
  assumes "float_literal t"
  shows "match_number float_of (t @ 44 # r) = Some (JFloat (float_of t), 44 # r)"
proof -
  obtain i s1 f s2 e where p: "scan_integer t = Some (i, s1)" "scan_frac s1 = (f, s2)"
    "scan_exp s2 = (e, [])" "f \<noteq> [] \<or> e \<noteq> []"
    using assms by (rule float_literal_parts)
  have t: "t = i @ f @ e"
    using scan_integer_split [OF p(1)] scan_frac_split [OF p(2)] scan_exp_split [OF p(3)]
    by simp
  have "match_number float_of (t @ 44 # r) = Some (JFloat (float_of (i @ f @ e)), 44 # r)"
    using p(4) by (auto simp: match_number_def scan_integer_app scan_frac_app scan_exp_app p)
  then show ?thesis
    by (simp add: t)
qed

lemma float_literal_head:
  assumes "float_literal t"
  shows "\<exists>d t'. is_digit d \<and> (t = d # t' \<or> t = 45 # d # t')"
proof -
  obtain i s1 where "scan_integer t = Some (i, s1)"
    using assms by (rule float_literal_parts)
  then show ?thesis
    by (rule scan_integer_head)
qed

lemma scan_once_float:
  assumes "float_literal t"
  shows "scan_once float_of (t @ 44 # r) = Inr (JFloat (float_of t), 44 # r)"
proof -
  obtain d t' where "is_digit d" "t = d # t' \<or> t = 45 # d # t'"
    using float_literal_head [OF assms] by blast
  then show ?thesis
    by (simp add: scan_once_number [of d t t'] match_number_float [OF assms])
qed


subsection \<open>The members of the object\<close>

lemma skip_ws_keep: "\<not> is_ws c \<Longrightarrow> skip_ws (c # s) = c # s"
  by (simp add: skip_ws_def)

lemma skip_ws_space: "skip_ws (32 # s) = skip_ws s"
  by (simp add: skip_ws_def is_ws_def)

lemma parse_member:
  assumes k: "list_all scalar_value k"
    and v: "scan_once float_of (venc @ d # t) = Inr (v, d # t)"
    and h: "skip_ws (venc @ d # t) = venc @ d # t"
    and d: "d = 44 \<or> d = 125"
  shows "parse_members float_of
           (34 # concat (map escape_char k) @ 34 # 58 # 32 # venc @ d # t) =
         (if d = 125 then Inr ([(k, v)], t)
          else (case parse_members float_of (skip_ws t) of
                  Inl e \<Rightarrow> Inl e
                | Inr (kvs, rest) \<Rightarrow> Inr ((k, v) # kvs, rest)))"
proof -
  have c: "skip_ws (58 # 32 # venc @ d # t) = 58 # 32 # venc @ d # t"
    by (simp add: skip_ws_keep is_ws_def)
  have e: "skip_ws (d # t) = d # t"
    using d by (auto simp: skip_ws_keep is_ws_def)
  show ?thesis
    using d
    by (subst parse_members.simps)
       (auto simp: scan_escaped [OF k] c skip_ws_space h v e)
qed

lemma dict_three:
  assumes "k1 \<noteq> k2" "k1 \<noteq> k3" "k2 \<noteq> k3"
  shows "py_dict [(k1, v1), (k2, v2), (k3, v3)] = [(k1, v1), (k2, v2), (k3, v3)]"
  using assms by (simp add: py_dict_def)

lemma separators:
  "u ''{'' = [123]" "u ''}'' = [125]" "u '': '' = [58, 32]" "u '', '' = [44, 32]"
  by (simp_all add: u_def)

lemma settings_keys:
  "list_all scalar_value (u ''free_tier_ads'')"
  "list_all scalar_value (u ''premium_price'')"
  "list_all scalar_value (u ''premium_benefits'')"
  "u ''free_tier_ads'' \<noteq> u ''premium_price''"
  "u ''free_tier_ads'' \<noteq> u ''premium_benefits''"
  "u ''premium_price'' \<noteq> u ''premium_benefits''"
  by (simp_all add: u_def scalar_value_def)

lemma loads_dumped:
  assumes k: "list_all scalar_value k1" "list_all scalar_value k2" "list_all scalar_value k3"
    and n: "k1 \<noteq> k2" "k1 \<noteq> k3" "k2 \<noteq> k3"
    and f: "float_literal (float_repr p)" "float_of (float_repr p) = p"
    and b: "list_all scalar_value b"
  shows "json_loads float_of
           (concat (json_chunks float_repr [(k1, JInt a), (k2, JFloat p), (k3, JStr b)])) =
         Inr [(k1, JInt a), (k2, JFloat p), (k3, JStr b)]"
proof -
  define m3 where
    "m3 = 34 # concat (map escape_char k3) @ 34 # 58 # 32 #
            (34 # concat (map escape_char b) @ [34]) @ [125]"
  define m2 where
    "m2 = 34 # concat (map escape_char k2) @ 34 # 58 # 32 # float_repr p @ 44 # 32 # m3"
  define m1 where
    "m1 = 34 # concat (map escape_char k1) @ 34 # 58 # 32 # py_repr_int a @ 44 # 32 # m2"
  have doc: "concat (json_chunks float_repr [(k1, JInt a), (k2, JFloat p), (k3, JStr b)]) =
                123 # m1"
    by (simp add: json_chunks_def encode_value_def py_encode_basestring_ascii_def separators
          m1_def m2_def m3_def)
  have q: "skip_ws (34 # s) = 34 # s" for s
    by (simp add: skip_ws_keep is_ws_def)
  have p3: "parse_members float_of m3 = Inr ([(k3, JStr b)], [])"
  proof -
    define venc where "venc = 34 # concat (map escape_char b) @ [34]"
    have v: "scan_once float_of (venc @ 125 # []) = Inr (JStr b, 125 # [])"
      using scan_once_string [OF b, of float_of "[125]"]
      by (simp add: py_encode_basestring_ascii_def venc_def)
    have h: "skip_ws (venc @ 125 # []) = venc @ 125 # []"
      by (simp add: venc_def q)
    have "parse_members float_of
            (34 # concat (map escape_char k3) @ 34 # 58 # 32 # venc @ 125 # []) =
          Inr ([(k3, JStr b)], [])"
      using parse_member [OF k(3) v h] by simp
    then show ?thesis
      by (simp add: m3_def venc_def)
  qed
  have p2: "parse_members float_of m2 = Inr ([(k2, JFloat p), (k3, JStr b)], [])"
  proof -
    obtain d t' where h: "is_digit d" "float_repr p = d # t' \<or> float_repr p = 45 # d # t'"
      using float_literal_head [OF f(1)] by blast
    have "scan_once float_of (float_repr p @ 44 # 32 # m3) = Inr (JFloat p, 44 # 32 # m3)"
      using scan_once_float [OF f(1), of float_of "32 # m3"] by (simp add: f(2))
    moreover have "skip_ws (float_repr p @ 44 # 32 # m3) = float_repr p @ 44 # 32 # m3"
      using h by (rule skip_ws_number)
    moreover have "skip_ws (32 # m3) = m3"
      by (simp add: skip_ws_space m3_def q)
    ultimately show ?thesis
      unfolding m2_def
      using parse_member [OF k(2), of float_of "float_repr p" 44 "32 # m3" "JFloat p"]
      by (simp add: p3)
  qed
  have p1: "parse_members float_of m1 =
              Inr ([(k1, JInt a), (k2, JFloat p), (k3, JStr b)], [])"
  proof -
    obtain d t' where h: "is_digit d" "py_repr_int a = d # t' \<or> py_repr_int a = 45 # d # t'"
      using repr_int_head by blast
    have "scan_once float_of (py_repr_int a @ 44 # 32 # m2) = Inr (JInt a, 44 # 32 # m2)"
      by (rule scan_once_int)
    moreover have "skip_ws (py_repr_int a @ 44 # 32 # m2) = py_repr_int a @ 44 # 32 # m2"
      using h by (rule skip_ws_number)
    moreover have "skip_ws (32 # m2) = m2"
      by (simp add: skip_ws_space m2_def q)
    ultimately show ?thesis
      unfolding m1_def
      using parse_member [OF k(1), of float_of "py_repr_int a" 44 "32 # m2" "JInt a"]
      by (simp add: p2)
  qed
  obtain t1 where m: "m1 = 34 # t1"
    by (simp add: m1_def)
  have w: "skip_ws (123 # m1) = 123 # m1" "skip_ws m1 = 34 # t1" "skip_ws [] = []"
    by (simp_all add: skip_ws_keep is_ws_def m) (simp add: skip_ws_def)
  have "json_loads float_of (123 # m1) = Inr (py_dict [(k1, JInt a), (k2, JFloat p), (k3, JStr b)])"
    using p1 by (simp add: json_loads_def w) (simp add: m w)
  then show ?thesis
    by (simp add: doc dict_three [OF n])
qed

subsection \<open>Save and reload\<close>

lemma ex_prior_text:
  "ex_prior ''business_config.json'' =
     Some (u ''{'' @ 34 # u ''free_tier_ads'' @ 34 # u '': 5, '' @
           34 # u ''premium_price'' @ 34 # u '': 9.99, '' @
           34 # u ''premium_benefits'' @ 34 # u '': '' @
           34 # 92 # u ''u2705 No ads'' @ 92 # u ''n'' @
           92 # u ''u2705 Priority processing'' @ 92 # u ''n'' @
           92 # u ''u2705 Advanced styles'' @ 34 # u ''}'')"
  by (simp add: ex_prior_def save_text json_chunks_def encode_value_def
        py_encode_basestring_ascii_def ex_benefits_old_def escape_char_def hex4_def hex_digit_def
        py_repr_int_def digits_of.simps u_def)

lemma ex_saved_text:
  "save_business_settings (\<lambda>t. t) 1 (u ''4.99'') ex_benefits ex_prior ''business_config.json'' =
     Some (u ''{'' @ 34 # u ''free_tier_ads'' @ 34 # u '': 1, '' @
           34 # u ''premium_price'' @ 34 # u '': 4.99, '' @
           34 # u ''premium_benefits'' @ 34 # u '': '' @
           34 # 92 # u ''u2705 No ads'' @ 92 # u ''n'' @
           92 # u ''ud83d'' @ 92 # u ''ude80 Priority processing'' @ 34 # u ''}'')"
  by (simp add: save_text json_chunks_def encode_value_def
        py_encode_basestring_ascii_def ex_benefits_def escape_char_def hex4_def hex_digit_def
        py_repr_int_def digits_of.simps u_def)

text \<open>
  Claim C8. For every ad count, every price and every benefits text, and whatever the
  settings file held before (or if it did not exist), the reload of the file after a
  save gives the object of exactly the three saved fields, with the saved values and
  nothing else; the text of the file after the save does not depend on what the file
  held. The price is a finite float: its \<open>repr\<close> is a number with a fraction or an
  exponent, and \<open>float\<close> reads it back. The benefits text holds no surrogate.
\<close>

theorem settings_overwrite:
  assumes "float_literal (float_repr price)"
    and "float_of (float_repr price) = price"
    and "list_all scalar_value benefits"
  shows "json_load float_of ''business_config.json''
           (save_business_settings float_repr ads price benefits fs) =
         Inr [(u ''free_tier_ads'', JInt ads), (u ''premium_price'', JFloat price),
              (u ''premium_benefits'', JStr benefits)] \<and>
         save_business_settings float_repr ads price benefits fs ''business_config.json'' =
         save_business_settings float_repr ads price benefits Map.empty
           ''business_config.json''"
  using loads_dumped [where float_repr = float_repr and float_of = float_of and p = price
      and a = ads, OF settings_keys assms]
  by (simp add: json_load_def save_text)

theorem settings_overwrite_witness:
  "float_literal (u ''4.99'') \<and> list_all scalar_value ex_benefits \<and>
   json_load (\<lambda>t. t) ''business_config.json''
     (save_business_settings (\<lambda>t. t) 1 (u ''4.99'') ex_benefits ex_prior) =
   Inr [(u ''free_tier_ads'', JInt 1), (u ''premium_price'', JFloat (u ''4.99'')),
        (u ''premium_benefits'', JStr ex_benefits)]"
proof -
  have f: "float_literal ((\<lambda>t. t) (u ''4.99''))"
    by (simp add: float_literal_def scan_integer_def scan_frac_def scan_exp_def is_digit_def
          u_def)
  have b: "list_all scalar_value ex_benefits"
    by (simp add: ex_benefits_def scalar_value_def u_def)
  show ?thesis
    using settings_overwrite [of "\<lambda>t. t" "u ''4.99''" "\<lambda>t. t" ex_benefits 1 ex_prior,
        OF f _ b] f b
    by simp
qed

section \<open>Caption styles\<close>

lemma styles_smart:
  "styles capitalize result = Inr d \<Longrightarrow> py_getitem d style_smart = Inr (capitalize result)"
  by (auto simp: styles_def py_getitem_def split: sum.splits)

lemma styles_other:
  "styles capitalize result = Inr d \<Longrightarrow> style \<notin> set style_names \<Longrightarrow> map_of d style = None"
  by (auto simp: styles_def style_names_def split: sum.splits)

text \<open>
  Claim C4. For a style selector that is none of the six style names, and any
  description, \<open>generate_caption\<close> returns what it returns for the first style: the
  same caption and hashtags, or the same exception.
\<close>

theorem unknown_style_falls_back:
  assumes "style \<notin> set style_names"
  shows "generate_caption capitalize result style =
         generate_caption capitalize result style_smart"
proof (cases "styles capitalize result")
  case (Inl e)
  then show ?thesis by (simp add: generate_caption_def)
next
  case (Inr d)
  have smart: "py_getitem d style_smart = Inr (capitalize result)"
    using Inr by (rule styles_smart)
  then have "map_of d style_smart = Some (capitalize result)"
    by (simp add: py_getitem_def split: option.splits)
  moreover have "map_of d style = None"
    using Inr assms by (rule styles_other)
  ultimately show ?thesis
    using Inr smart by (simp add: generate_caption_def py_get_def)
qed

theorem unknown_style_falls_back_witness:
  "u ''Poetic'' \<notin> set style_names \<and>
   generate_caption ascii_capitalize (u ''a dog on the grass'') (u ''Poetic'') =
     Inr (u ''A dog on the grass'', u ''#grass #InstaAI #SocialMedia'')"
proof -
  have h: "u ''Poetic'' \<notin> set style_names"
    by (simp add: style_names_def style_smart_def style_funny_def style_inspirational_def
          style_minimalist_def style_professional_def style_dramatic_def u_def)
  show ?thesis
    using h unknown_style_falls_back [OF h, of ascii_capitalize "u ''a dog on the grass''"]
      ex_caption
    by simp
qed

section \<open>Hashtags\<close>











section \<open>The ad reward\<close>

text \<open>
  Claim C5. \<open>show_ads_to_user\<close> reports failure exactly when no configuration is
  active, and then leaves session and store as they were. Otherwise it takes an active
  configuration of least priority number, adds its \<open>min_coins\<close> to the coins of the
  row with the given id and 1 to its ad count, and appends one \<open>ad_events\<close> row
  with the same reward.
\<close>

theorem show_ads_to_user_outcome:
  assumes "show_ads_to_user uid now (s, d) = (r, s', d')"
  shows "(fst r = False \<longleftrightarrow> active_configs d = []) \<and>
         (active_configs d = [] \<longrightarrow>
            r = (False, No_active_ad_platforms) \<and> s' = s \<and> d' = d) \<and>
         (active_configs d \<noteq> [] \<longrightarrow>
            (\<exists>p\<in>set (active_configs d).
               (\<forall>c\<in>set (active_configs d). priority p \<le> priority c) \<and>
               r = (True, Earned (min_coins p)) \<and>
               users d' =
                 map (\<lambda>row. if u_id row = uid
                             then row\<lparr>u_coins := u_coins row + min_coins p,
                                      u_ad_watched := u_ad_watched row + 1\<rparr>
                             else row) (users d) \<and>
               ad_events d' = ad_events d @
                 [\<lparr>e_id = ad_events_seq d + 1, e_user_id = uid, e_platform_id = c_id p,
                   e_timestamp = now, coins_earned = min_coins p\<rparr>] \<and>
               ad_configs d' = ad_configs d \<and> captions d' = captions d))"
proof (cases "get_active_ad_platforms d")
  case Nil
  then have "active_configs d = []"
    using get_active_Nil [of d] by simp
  then show ?thesis
    using assms Nil by (auto simp: show_ads_to_user_def)
next
  case (Cons p ps)
  then have ne: "active_configs d \<noteq> []"
    using get_active_Nil [of d] by simp
  have credit: "credit_user (min_coins p) uid =
      (\<lambda>row. if u_id row = uid
              then row\<lparr>u_coins := u_coins row + min_coins p,
                       u_ad_watched := u_ad_watched row + 1\<rparr>
              else row)"
    by (rule ext) (simp add: credit_user_def)
  have r: "r = (True, Earned (min_coins p))"
    using assms Cons by (auto simp: show_ads_to_user_def)
  have d': "d' = d\<lparr>users := map (credit_user (min_coins p) uid) (users d),
                ad_events := ad_events d @
                  [\<lparr>e_id = ad_events_seq d + 1, e_user_id = uid, e_platform_id = c_id p,
                    e_timestamp = now, coins_earned = min_coins p\<rparr>],
                ad_events_seq := ad_events_seq d + 1\<rparr>"
    using assms Cons by (auto simp: show_ads_to_user_def)
  show ?thesis
    using ne r get_active_Cons [OF Cons] by (intro conjI impI bexI [of _ p]) (simp_all add: d' credit)
qed

theorem show_ads_to_user_outcome_witness:
  "active_configs init_db = [] \<and>
   show_ads_to_user 1 200 (fresh_session, init_db) =
     ((False, No_active_ad_platforms), fresh_session, init_db) \<and>
   active_configs ex_user \<noteq> [] \<and>
   fst (show_ads_to_user 1 200 (fresh_session, ex_user)) = (True, Earned 3) \<and>
   map u_coins (users (snd (snd (show_ads_to_user 1 200 (fresh_session, ex_user))))) = [3] \<and>
   map u_ad_watched (users (snd (snd (show_ads_to_user 1 200 (fresh_session, ex_user))))) = [1] \<and>
   map coins_earned (ad_events (snd (snd (show_ads_to_user 1 200 (fresh_session, ex_user))))) = [3]"
proof -
  have none: "active_configs init_db = []"
    using show_ads_to_user_outcome [OF ex_show_none] by simp
  have some: "active_configs ex_user \<noteq> []"
    using show_ads_to_user_outcome [OF ex_show] by simp
  show ?thesis
    using none some by (simp add: ex_show ex_show_none ex_paid_def)
qed

section \<open>Inserting a configuration\<close>

lemma sorted_map_nth_mono:
  "sorted (map f xs) \<Longrightarrow> i \<le> j \<Longrightarrow> j < length xs \<Longrightarrow> f (xs ! i) \<le> f (xs ! j)"
  using sorted_nth_mono [of "map f xs" i j] by simp

text \<open>
  Claim C7. After an active configuration with priority \<open>P\<close> is inserted, the list
  of active configurations in priority order holds it, before every entry of priority
  above \<open>P\<close> and after every entry of priority below \<open>P\<close>.
\<close>

theorem inserted_config_in_priority_order:
  assumes d': "d' = insert_ad_config platform key P True per_use reward d"
    and xs: "xs = get_active_ad_platforms d'"
    and new: "new = \<lparr>c_id = ad_configs_seq d + 1, platform_name = platform, api_key = key,
                      priority = P, is_active = 1, ads_per_use = per_use,
                      min_coins = reward\<rparr>"
  shows "new \<in> set xs \<and> set xs = set (active_configs d') \<and>
         (\<forall>i j. i < length xs \<and> j < length xs \<and> xs ! i = new \<longrightarrow>
                 (P < priority (xs ! j) \<longrightarrow> i < j) \<and>
                 (priority (xs ! j) < P \<longrightarrow> j < i))"
proof -
  have "new \<in> set (active_configs d')"
    by (simp add: d' new insert_ad_config_def active_configs_def)
  then have mem: "new \<in> set xs"
    by (simp add: xs get_active_set)
  have srt: "sorted (map priority xs)"
    by (simp add: xs get_active_sorted)
  have ord: "(P < priority (xs ! j) \<longrightarrow> i < j) \<and> (priority (xs ! j) < P \<longrightarrow> j < i)"
    if "i < length xs" "j < length xs" "xs ! i = new" for i j
  proof -
    have P: "priority (xs ! i) = P"
      using that(3) by (simp add: new)
    have "i < j" if "P < priority (xs ! j)"
    proof (rule ccontr)
      assume "\<not> i < j"
      then have "priority (xs ! j) \<le> priority (xs ! i)"
        using sorted_map_nth_mono [OF srt, of j i] \<open>i < length xs\<close> by simp
      then show False using that P by simp
    qed
    moreover have "j < i" if "priority (xs ! j) < P"
    proof (rule ccontr)
      assume "\<not> j < i"
      then have "priority (xs ! i) \<le> priority (xs ! j)"
        using sorted_map_nth_mono [OF srt, of i j] \<open>j < length xs\<close> by simp
      then show False using that P by simp
    qed
    ultimately show ?thesis by blast
  qed
  show ?thesis
    using mem ord by (simp add: xs get_active_set)
qed

theorem inserted_config_in_priority_order_witness:
  "\<lparr>c_id = 4, platform_name = u ''Google AdMob'', api_key = u ''k4'', priority = 2,
     is_active = 1, ads_per_use = 1, min_coins = 5\<rparr>
     \<in> set (get_active_ad_platforms
              (insert_ad_config (u ''Google AdMob'') (u ''k4'') 2 True 1 5 ex_configs)) \<and>
   map platform_name (get_active_ad_platforms
      (insert_ad_config (u ''Google AdMob'') (u ''k4'') 2 True 1 5 ex_configs)) =
   [u ''start.io'', u ''Google AdMob'', u ''Unity Ads'']"
proof -
  have seq: "ad_configs_seq ex_configs + 1 = 4"
    by (simp add: ex_configs_def insert_ad_config_def init_db_def)
  have "\<lparr>c_id = ad_configs_seq ex_configs + 1, platform_name = u ''Google AdMob'',
          api_key = u ''k4'', priority = 2, is_active = 1, ads_per_use = 1, min_coins = 5\<rparr>
        \<in> set (get_active_ad_platforms
                 (insert_ad_config (u ''Google AdMob'') (u ''k4'') 2 True 1 5 ex_configs))"
    using inserted_config_in_priority_order
        [where platform = "u ''Google AdMob''" and key = "u ''k4''" and P = 2
           and per_use = 1 and reward = 5 and d = ex_configs, OF refl refl refl]
    by (rule conjunct1)
  then show ?thesis
    unfolding seq using ex_insert_sorted by (intro conjI)
qed

section \<open>The coin ledger in reachable states\<close>

text \<open>The ledger of a user depends on the \<open>ad_events\<close> table alone.\<close>

lemma ledger_same:
  assumes "ad_events d' = ad_events d"
  shows "ledger_coins d' uid = ledger_coins d uid" and "ledger_count d' uid = ledger_count d uid"
  using assms by (simp_all add: ledger_coins_def ledger_count_def events_of_def)

lemma ledger_snoc:
  assumes "ad_events d' = ad_events d @ [e]"
  shows "ledger_coins d' uid =
           ledger_coins d uid + (if e_user_id e = uid then coins_earned e else 0)"
    and "ledger_count d' uid = ledger_count d uid + (if e_user_id e = uid then 1 else 0)"
  using assms by (simp_all add: ledger_coins_def ledger_count_def events_of_def)

lemma ledger_unreferenced:
  assumes "refs_ok d" "users_seq d < uid"
  shows "ledger_coins d uid = 0" and "ledger_count d uid = 0"
proof -
  have "e_user_id e \<noteq> uid" if "e \<in> set (ad_events d)" for e
    using assms that by (fastforce simp: refs_ok_def list_all_iff)
  then have "events_of d uid = []"
    by (auto simp: events_of_def filter_empty_conv)
  then show "ledger_coins d uid = 0" and "ledger_count d uid = 0"
    by (simp_all add: ledger_coins_def ledger_count_def)
qed

lemma inv_init: "store_inv g init_db"
  by (simp add: store_inv_def refs_ok_def ledger_ok_def init_db_def)

lemma inv_register:
  assumes "store_inv g d" "register_user dev now d = Inr d'"
  shows "store_inv g d'"
proof -
  define new where "new = \<lparr>u_id = users_seq d + 1, u_device_id = dev, u_created_at = now,
      u_last_active = None, u_caption_count = 0, u_ad_watched = 0, u_coins = 0\<rparr>"
  have d': "d' = d\<lparr>users := users d @ [new], users_seq := users_seq d + 1\<rparr>"
    using assms(2) by (auto simp: register_user_def new_def split: if_splits)
  have ev: "ad_events d' = ad_events d" by (simp add: d')
  have us: "users d' = users d @ [new]" by (simp add: d')
  have seq: "users_seq d' = users_seq d + 1" by (simp add: d')
  have refs: "refs_ok d" using assms(1) by (simp add: store_inv_def)
  have z: "ledger_coins d (u_id new) = 0" "ledger_count d (u_id new) = 0"
    using ledger_unreferenced [OF refs, of "u_id new"] by (simp_all add: new_def)
  have new: "u_coins new = 0" "u_ad_watched new = 0" "u_id new = users_seq d + 1"
    by (simp_all add: new_def)
  have "refs_ok d'"
    using refs by (auto simp: refs_ok_def us ev seq new list_all_iff)
  moreover have "list_all (row_counted d') (users d')"
    using assms(1) z
    by (auto simp: store_inv_def row_counted_def list_all_iff us ledger_same [OF ev] new)
  moreover have "ledger_ok d'" if "\<not> g"
    using assms(1) z that
    by (auto simp: store_inv_def ledger_ok_def row_balanced_def list_all_iff us
          ledger_same [OF ev] new)
  ultimately show ?thesis by (simp add: store_inv_def)
qed

lemma inv_ad:
  assumes "store_inv g d" "uid \<in> set (map u_id (users d))"
    "show_ads_to_user uid now (s, d) = (r, s', d')"
  shows "store_inv g d'"
proof (cases "get_active_ad_platforms d")
  case Nil
  then have "d' = d" using assms(3) by (simp add: show_ads_to_user_def)
  then show ?thesis using assms(1) by simp
next
  case (Cons p ps)
  define e where "e = \<lparr>e_id = ad_events_seq d + 1, e_user_id = uid, e_platform_id = c_id p,
                    e_timestamp = now, coins_earned = min_coins p\<rparr>"
  have d': "d' = d\<lparr>users := map (credit_user (min_coins p) uid) (users d),
                ad_events := ad_events d @ [e], ad_events_seq := ad_events_seq d + 1\<rparr>"
    using assms(3) Cons by (auto simp: show_ads_to_user_def e_def)
  have ev: "ad_events d' = ad_events d @ [e]" by (simp add: d')
  have us: "users d' = map (credit_user (min_coins p) uid) (users d)" by (simp add: d')
  have seq: "users_seq d' = users_seq d" by (simp add: d')
  have e: "e_user_id e = uid" "coins_earned e = min_coins p" by (simp_all add: e_def)
  have ids: "map u_id (users d') = map u_id (users d)"
    by (simp add: us credit_user_def)
  have "refs_ok d'"
    using assms(1,2) unfolding store_inv_def refs_ok_def ids seq
    by (auto simp: ev e list_all_iff us credit_user_def)
  moreover have "list_all (row_counted d') (users d')"
    using assms(1)
    by (auto simp: store_inv_def row_counted_def list_all_iff us ledger_snoc [OF ev] e
          credit_user_def)
  moreover have "ledger_ok d'" if "\<not> g"
    using assms(1) that
    by (auto simp: store_inv_def ledger_ok_def row_balanced_def list_all_iff us
          ledger_snoc [OF ev] e credit_user_def)
  ultimately show ?thesis by (simp add: store_inv_def)
qed

lemma inv_caption:
  assumes "store_inv g d"
  shows "store_inv g (save_caption uid dev img_hash cap tags now d)"
proof -
  let ?d' = "save_caption uid dev img_hash cap tags now d"
  have ev: "ad_events ?d' = ad_events d" by (simp add: save_caption_def)
  have us: "users ?d' = map (touch_row dev now) (users d)" by (simp add: save_caption_def)
  have seq: "users_seq ?d' = users_seq d" by (simp add: save_caption_def)
  have ids: "map u_id (users ?d') = map u_id (users d)"
    by (simp add: us touch_row_def)
  have "refs_ok ?d'"
    using assms unfolding store_inv_def refs_ok_def ids ev seq
    by (auto simp: list_all_iff us touch_row_def)
  moreover have "list_all (row_counted ?d') (users ?d')"
    using assms
    by (auto simp: store_inv_def row_counted_def list_all_iff us ledger_same [OF ev] touch_row_def)
  moreover have "ledger_ok ?d'" if "\<not> g"
    using assms that
    by (auto simp: store_inv_def ledger_ok_def row_balanced_def list_all_iff us
          ledger_same [OF ev] touch_row_def)
  ultimately show ?thesis by (simp add: store_inv_def)
qed

lemma inv_same:
  assumes "store_inv g d" "users d' = users d" "users_seq d' = users_seq d"
    "ad_events d' = ad_events d"
  shows "store_inv g d'"
proof -
  have c: "row_counted d' = row_counted d"
    by (rule ext) (simp add: row_counted_def ledger_same [OF assms(4)])
  have b: "row_balanced d' = row_balanced d"
    by (rule ext) (simp add: row_balanced_def ledger_same [OF assms(4)])
  show ?thesis
    using assms(1) unfolding store_inv_def refs_ok_def ledger_ok_def c b assms(2,3,4) .
qed

lemma inv_grant:
  assumes "store_inv True d" "1 \<le> amount"
  shows "store_inv True (admin_add_coins amount uid d)"
proof -
  let ?d' = "admin_add_coins amount uid d"
  have ev: "ad_events ?d' = ad_events d" by (simp add: admin_add_coins_def)
  have us: "users ?d' = map (grant_row amount uid) (users d)" by (simp add: admin_add_coins_def)
  have seq: "users_seq ?d' = users_seq d" by (simp add: admin_add_coins_def)
  have ids: "map u_id (users ?d') = map u_id (users d)"
    by (simp add: us grant_row_def)
  have "refs_ok ?d'"
    using assms unfolding store_inv_def refs_ok_def ids ev seq
    by (auto simp: list_all_iff us grant_row_def)
  moreover have "list_all (row_counted ?d') (users ?d')"
    using assms
    by (auto simp: store_inv_def row_counted_def list_all_iff us ledger_same [OF ev] grant_row_def)
  ultimately show ?thesis by (simp add: store_inv_def)
qed

lemma reachable_inv: "reachable g d \<Longrightarrow> store_inv g d"
proof (induction rule: reachable.induct)
  case reach_init
  show ?case by (rule inv_init)
next
  case (reach_register d dev now d')
  then show ?case using inv_register by blast
next
  case (reach_ad d uid now s r s' d')
  then show ?case using inv_ad by blast
next
  case (reach_caption d uid dev img_hash cap tags now)
  then show ?case using inv_caption by blast
next
  case (reach_config d platform key prio active per_use reward)
  from reach_config.IH show ?case
    by (rule inv_same) (simp_all add: insert_ad_config_def)
next
  case (reach_edit d es)
  from reach_edit.IH show ?case
    by (rule inv_same) (simp_all add: save_config_edits_def)
next
  case (reach_grant d uid amount)
  then show ?case using inv_grant by simp
qed


lemma reachable_ex_user: "reachable g ex_user"
proof -
  have "reachable g ex_configs"
    unfolding ex_configs_def by (intro reach_config reach_init)
  then show ?thesis
    using ex_register by (rule reach_register)
qed

lemma reachable_ex_paid: "reachable g ex_paid"
proof -
  have "(1::int) \<in> set (map u_id (users ex_user))"
    by (simp add: ex_user_def)
  with reachable_ex_user show ?thesis
    using ex_show by (rule reach_ad)
qed

text \<open>
  Claim C1, as it stands: in every reachable state each user's coin balance and
  ad-watched counter equal what that user's \<open>ad_events\<close> rows add up to, the admin's
  coin grant included. The grant adds coins without an event: after a grant of 10 coins
  to the only user, who has no event, the balance is 10 and the events sum to 0.
\<close>

theorem ledger_invariant_counterexample:
  "reachable True ex_granted \<and> \<not> ledger_ok ex_granted \<and>
   map u_coins (users ex_granted) = [10] \<and> ledger_coins ex_granted 1 = 0"
proof -
  have "(1::int) \<in> set (map u_id (users ex_user))"
    by (simp add: ex_user_def)
  then have "reachable True (admin_add_coins 10 1 ex_user)"
    by (intro reach_grant reachable_ex_user) simp_all
  then show ?thesis
    by (simp add: ex_granted_def admin_add_coins_def grant_row_def ex_user_def ex_configs_def
          insert_ad_config_def init_db_def ledger_ok_def row_balanced_def ledger_coins_def
          ledger_count_def events_of_def)
qed

text \<open>
  Claim C1, amended: in every state reached by registrations, ad completions, saved
  captions, configuration inserts and edits and coin grants, each user's ad-watched
  counter equals the number of that user's \<open>ad_events\<close> rows and the coin balance is
  at least the sum of their \<open>coins_earned\<close>; in the states reached without a coin
  grant the balance equals that sum.
\<close>

theorem ledger_invariant:
  assumes "reachable grants d"
  shows "list_all (row_counted d) (users d) \<and> (\<not> grants \<longrightarrow> ledger_ok d)"
  using reachable_inv [OF assms] by (simp add: store_inv_def)

theorem ledger_invariant_witness:
  "reachable False ex_paid \<and> ledger_ok ex_paid \<and>
   map u_coins (users ex_paid) = [3] \<and> ledger_coins ex_paid 1 = 3 \<and>
   map u_ad_watched (users ex_paid) = [1] \<and> ledger_count ex_paid 1 = 1"
proof -
  have r: "reachable False ex_paid" by (rule reachable_ex_paid)
  have "ledger_ok ex_paid"
    using ledger_invariant [OF r] by simp
  then show ?thesis
    using r by (simp add: ex_paid_def ledger_coins_def ledger_count_def events_of_def)
qed

section \<open>The gate of the generate button\<close>

lemma ex_first_required: "ads_required ex_first_user = 1"
  by (simp add: ads_required_def get_active_ad_platforms_def active_configs_def
        ex_first_user_def init_db_def)

lemma ex_first_init:
  "init_session ex_request (fresh_session, init_db) = (Inr (), session_at 0 0, ex_first_user)"
  by (simp add: init_session_def fresh_session_def ex_request_def session_at_def
        register_user_def ex_first_user_def init_db_def)

lemma ex_first_disabled: "generate_disabled (session_at 0 0) 1 = Inr True"
  by (simp add: generate_disabled_def session_at_def)

lemma ex_first_run:
  "main_user_app ascii_capitalize ex_request (fresh_session, init_db) =
     (Inr (), session_at 0 0, ex_first_user)"
proof -
  have a: "ad_section ex_request 1 (session_at 0 0, ex_first_user) =
             (Inr False, session_at 0 0, ex_first_user)"
    by (simp add: ad_section_def session_at_def needs_ads_def)
  have g: "generate_section ascii_capitalize ex_request ex_upload 1
             (session_at 0 0, ex_first_user) = (Inr (), session_at 0 0, ex_first_user)"
    by (simp add: generate_section_def ex_first_disabled)
  have u: "rq_upload ex_request = Some ex_upload"
    by (simp add: ex_request_def)
  have c: "caption_count (session_at 0 0) = Some 0" "coins (session_at 0 0) = Some 0"
    by (simp_all add: session_at_def)
  show ?thesis
    by (simp add: main_user_app_def ex_first_init c u ex_first_required a g)
qed

lemma ex_first_again:
  "main_user_app ascii_capitalize ex_request (session_at 0 0, ex_first_user) =
     (Inr (), session_at 0 0, ex_first_user)"
proof -
  have i: "init_session ex_request (session_at 0 0, ex_first_user) =
             (Inr (), session_at 0 0, ex_first_user)"
    by (simp add: init_session_def session_at_def)
  have a: "ad_section ex_request 1 (session_at 0 0, ex_first_user) =
             (Inr False, session_at 0 0, ex_first_user)"
    by (simp add: ad_section_def session_at_def needs_ads_def)
  have g: "generate_section ascii_capitalize ex_request ex_upload 1
             (session_at 0 0, ex_first_user) = (Inr (), session_at 0 0, ex_first_user)"
    by (simp add: generate_section_def ex_first_disabled)
  have u: "rq_upload ex_request = Some ex_upload"
    by (simp add: ex_request_def)
  have c: "caption_count (session_at 0 0) = Some 0" "coins (session_at 0 0) = Some 0"
    by (simp_all add: session_at_def)
  show ?thesis
    by (simp add: main_user_app_def i c u ex_first_required a g)
qed

text \<open>
  Claim C2: request number n of a session is blocked exactly when n is 3, 6, 9, ... and
  the required ads are missing; requests 1, 2, 4, 5, ... are never blocked. On a fresh
  session with no ad platform configured (one ad required by default) the first
  request is blocked: the generate button is disabled at counter 0, the ad buttons are
  not drawn at counter 0, and the click on the button writes nothing, in this run and in
  every later one.
\<close>

theorem first_request_blocked:
  "ads_required ex_first_user = 1 \<and>
   generate_disabled (session_at 0 0) (ads_required ex_first_user) = Inr True \<and>
   needs_ads 0 = False \<and>
   main_user_app ascii_capitalize ex_request (fresh_session, init_db) =
     (Inr (), session_at 0 0, ex_first_user) \<and>
   main_user_app ascii_capitalize ex_request (session_at 0 0, ex_first_user) =
     (Inr (), session_at 0 0, ex_first_user) \<and>
   captions ex_first_user = []"
  by (simp add: ex_first_required ex_first_disabled ex_first_run ex_first_again needs_ads_def)
     (simp add: ex_first_user_def init_db_def)

section \<open>The first request of a device\<close>

lemma ex_free_user_required: "ads_required ex_free_user = 0"
  by (simp add: ads_required_def get_active_ad_platforms_def active_configs_def ex_free_def
        ex_free_user_def insert_ad_config_def init_db_def)

lemma ex_init:
  "init_session ex_request (fresh_session, ex_free) = (Inr (), session_at 0 0, ex_free_user)"
  by (simp add: init_session_def fresh_session_def ex_request_def session_at_def
        register_user_def ex_free_def ex_free_user_def insert_ad_config_def init_db_def)

lemma ex_enabled: "generate_disabled (session_at 0 0) 0 = Inr False"
  by (simp add: generate_disabled_def session_at_def)

lemma ex_click:
  "generate_click ascii_capitalize ex_request ex_upload (session_at 0 0, ex_free_user) =
     (Inl AttributeError, session_at 0 0, ex_free_user)"
  by (simp add: generate_click_def ex_request_def ex_upload_def ex_caption session_at_def)

lemma ex_run:
  "main_user_app ascii_capitalize ex_request (fresh_session, ex_free) =
     (Inl AttributeError, session_at 0 0, ex_free_user)"
proof -
  have a: "ad_section ex_request 0 (session_at 0 0, ex_free_user) =
             (Inr False, session_at 0 0, ex_free_user)"
    by (simp add: ad_section_def session_at_def needs_ads_def)
  have k: "rq_click ex_request = Generate"
    by (simp add: ex_request_def)
  have g: "generate_section ascii_capitalize ex_request ex_upload 0
             (session_at 0 0, ex_free_user) = (Inl AttributeError, session_at 0 0, ex_free_user)"
    by (simp add: generate_section_def ex_enabled ex_click k)
  have u: "rq_upload ex_request = Some ex_upload"
    by (simp add: ex_request_def)
  have c: "caption_count (session_at 0 0) = Some 0" "coins (session_at 0 0) = Some 0"
    by (simp_all add: session_at_def)
  show ?thesis
    by (simp add: main_user_app_def ex_init c u ex_free_user_required a g)
qed

text \<open>No run assigns \<open>user_id\<close> in the session: the click on an ad button and the
  click on the generate button both stop at the read of it, and no caption is ever
  saved.\<close>

lemma watch_ad_undefined:
  "user_id s = None \<Longrightarrow> watch_ad rq (s, d) = (Inl AttributeError, s, d)"
  by (simp add: watch_ad_def)

lemma init_session_user_id:
  "user_id (fst (snd (init_session rq (s, d)))) = user_id s"
  by (simp add: init_session_def Let_def split: sum.splits)

lemma generate_click_undefined:
  assumes "user_id s = None"
  shows "snd (generate_click capitalize rq up (s, d)) = (s, d)"
    and "fst (generate_click capitalize rq up (s, d)) \<noteq> Inr ()"
  using assms by (simp_all add: generate_click_def split: sum.splits prod.splits)

lemma ad_section_undefined:
  assumes "user_id s = None"
  shows "snd (ad_section rq n (s, d)) = (s, d)"
  using assms
  by (simp add: ad_section_def watch_ad_undefined split: option.splits click.splits)

lemma generate_section_undefined:
  assumes "user_id s = None"
  shows "snd (generate_section capitalize rq up n (s, d)) = (s, d)"
  using generate_click_undefined(1) [OF assms]
  by (simp add: generate_section_def split: sum.splits)

lemma main_user_app_never_saves:
  assumes "user_id s = None"
  shows "captions (snd (snd (main_user_app capitalize rq (s, d)))) = captions d"
    and "user_id (fst (snd (main_user_app capitalize rq (s, d)))) = None"
proof -
  obtain r s1 d1 where i: "init_session rq (s, d) = (r, s1, d1)"
    by (cases "init_session rq (s, d)") auto
  have s1: "user_id s1 = None"
    using init_session_user_id [of rq s d] assms i by simp
  have d1: "captions d1 = captions d"
    using i by (auto simp: init_session_def Let_def register_user_def split: if_splits sum.splits)
  obtain x where a: "ad_section rq (ads_required d1) (s1, d1) = (x, s1, d1)"
    using ad_section_undefined [OF s1, of rq "ads_required d1" d1]
    by (cases "ad_section rq (ads_required d1) (s1, d1)") auto
  have res: "snd (main_user_app capitalize rq (s, d)) = (s1, d1)"
    by (simp add: main_user_app_def i a generate_section_undefined [OF s1]
          split: sum.splits option.splits)
  show "captions (snd (snd (main_user_app capitalize rq (s, d)))) = captions d"
    by (simp add: res d1)
  show "user_id (fst (snd (main_user_app capitalize rq (s, d)))) = None"
    by (simp add: res s1)
qed

text \<open>
  Claim C9: a successful caption generation appends one caption row, adds 1 to the
  user's caption count, stamps the last-active time and adds 1 to the session's
  counter. On the first request of a device, with the button enabled and the caption
  and hashtags computed, the run stops with \<open>AttributeError\<close> at the \<open>INSERT\<close>: no
  caption row, caption count 0, no last-active time, session counter 0.
\<close>

theorem first_generate_raises:
  "generate_disabled (session_at 0 0) (ads_required ex_free_user) = Inr False \<and>
   generate_caption ascii_capitalize (up_description ex_upload) (rq_style ex_request) =
     Inr (u ''A dog on the grass'', u ''#grass #InstaAI #SocialMedia'') \<and>
   main_user_app ascii_capitalize ex_request (fresh_session, ex_free) =
     (Inl AttributeError, session_at 0 0, ex_free_user) \<and>
   captions ex_free_user = [] \<and>
   map u_caption_count (users ex_free_user) = [0] \<and>
   map u_last_active (users ex_free_user) = [None] \<and>
   caption_count (session_at 0 0) = Some 0"
proof -
  have "generate_caption ascii_capitalize (up_description ex_upload) (rq_style ex_request) =
     Inr (u ''A dog on the grass'', u ''#grass #InstaAI #SocialMedia'')"
    using ex_caption by (simp add: ex_upload_def ex_request_def)
  moreover have "captions ex_free_user = []"
    "map u_caption_count (users ex_free_user) = [0]"
    "map u_last_active (users ex_free_user) = [None]"
    by (simp_all add: ex_free_user_def ex_free_def insert_ad_config_def init_db_def)
  moreover have "caption_count (session_at 0 0) = Some 0"
    by (simp add: session_at_def)
  ultimately show ?thesis
    by (simp add: ex_free_user_required ex_enabled ex_run)
qed

text \<open>
  Claim C10: the initialisation of a fresh session defines every field the flow reads
  later, the user id among them. It defines the device token and the three counters;
  \<open>user_id\<close> stays undefined, and both of its uses raise \<open>AttributeError\<close>.
\<close>

theorem session_user_id_undefined:
  "init_session ex_request (fresh_session, ex_free) = (Inr (), session_at 0 0, ex_free_user) \<and>
   device_id (session_at 0 0) = Some ''0123456789ab'' \<and>
   coins (session_at 0 0) = Some 0 \<and>
   caption_count (session_at 0 0) = Some 0 \<and>
   ads_watched (session_at 0 0) = Some 0 \<and>
   user_id (session_at 0 0) = None \<and>
   generate_click ascii_capitalize ex_request ex_upload (session_at 0 0, ex_free_user) =
     (Inl AttributeError, session_at 0 0, ex_free_user) \<and>
   watch_ad ex_request (session_at 0 0, ex_free_user) =
     (Inl AttributeError, session_at 0 0, ex_free_user)"
proof -
  have "user_id (session_at 0 0) = None"
    by (simp add: session_at_def)
  then show ?thesis
    using watch_ad_undefined [of "session_at 0 0" ex_request ex_free_user]
    by (simp add: ex_init ex_click) (simp add: session_at_def)
qed

end
